theory Spec2Isabelle
  imports Complex_Main
begin

text \<open>
  A shallow embedding of the browser agent's perception-action loop: the conversation manager
  that keeps the transcript within a token budget, the builder that indexes the interactive
  elements of a document, the executor of actions on the page, the content script that runs one
  action at a time, and the parsers of the decision text.  Each section gives the definitions
  translated from the source first, then the properties proved of them.  Strings are lists of
  characters (their length is the source's \<^verbatim>\<open>length\<close> on ASCII text), case conversion and white
  space are those of ASCII, and numbers are exact integers or reals.
\<close>



section \<open>Conversation context manager\<close>

subsection \<open>MessageHistory (server/agent/message-manager/views.js)\<close>

text \<open>
  A message is the object \<^verbatim>\<open>{ role, content }\<close>; its metadata carries the token
  estimate (the creation timestamp is the wall clock and is left out).  Token counts are integers:
  the only producer is \<^verbatim>\<open>Math.ceil(text.length / 4)\<close>.
\<close>

record message =
  role :: string
  content :: string

record MessageMetadata =
  tokens :: int

record entry =
  msg :: message
  metadata :: MessageMetadata

record MessageHistory =
  messages :: "entry list"
  currentTokens :: int

definition MessageHistory_new :: MessageHistory where
  "MessageHistory_new = \<lparr>messages = [], currentTokens = 0\<rparr>"

definition MessageHistory_addMessage :: "message \<Rightarrow> MessageMetadata \<Rightarrow> MessageHistory \<Rightarrow> MessageHistory" where
  "MessageHistory_addMessage m md h =
     h\<lparr>messages := messages h @ [\<lparr>msg = m, metadata = md\<rparr>],
       currentTokens := currentTokens h + tokens md\<rparr>"

definition MessageHistory_getMessages :: "MessageHistory \<Rightarrow> message list" where
  "MessageHistory_getMessages h = map msg (messages h)"

definition getTotalTokens :: "MessageHistory \<Rightarrow> int" where
  "getTotalTokens h = currentTokens h"

text \<open>The \<^verbatim>\<open>for\<close> loop of \<^verbatim>\<open>trimIfNeeded\<close>: the index of the first entry whose role is
  not \<^verbatim>\<open>'system'\<close>, or \<^verbatim>\<open>-1\<close> (here \<open>None\<close>).\<close>

fun indexToRemove :: "entry list \<Rightarrow> nat option" where
  "indexToRemove [] = None"
| "indexToRemove (e # es) =
     (if role (msg e) \<noteq> ''system'' then Some 0 else map_option Suc (indexToRemove es))"

text \<open>\<^verbatim>\<open>splice(i, 1)\<close> removes the entry at index \<open>i\<close>.\<close>

definition splice1 :: "nat \<Rightarrow> 'a list \<Rightarrow> 'a list" where
  "splice1 i xs = take i xs @ drop (Suc i) xs"

definition trimIfNeeded :: "int \<Rightarrow> MessageHistory \<Rightarrow> bool \<times> MessageHistory" where
  "trimIfNeeded maxTokens h =
     (if currentTokens h \<le> maxTokens then (False, h)
      else (case indexToRemove (messages h) of
              None \<Rightarrow> (False, h)
            | Some i \<Rightarrow>
                (True, h\<lparr>messages := splice1 i (messages h),
                         currentTokens := currentTokens h - tokens (metadata (messages h ! i))\<rparr>)))"

subsection \<open>MessageManager (message-manager service)\<close>

definition systemContent :: string where
  "systemContent =
   ''You are an AI agent that interacts with web pages. You will be given information about the current state of a webpage and must decide what action to take next. The goal is to complete the user's task.'' @ [CHR 0x0A]
   @ [CHR 0x0A]
   @ ''Your response should be a JSON object with this structure:'' @ [CHR 0x0A]
   @ ''{'' @ [CHR 0x0A]
   @ ''  '' @ [CHR 0x22] @ ''current_state'' @ [CHR 0x22] @ '': {'' @ [CHR 0x0A]
   @ ''    '' @ [CHR 0x22] @ ''evaluation'' @ [CHR 0x22] @ '': '' @ [CHR 0x22] @ ''Your analysis of the current page state'' @ [CHR 0x22] @ '','' @ [CHR 0x0A]
   @ ''    '' @ [CHR 0x22] @ ''next_goal'' @ [CHR 0x22] @ '': '' @ [CHR 0x22] @ ''What you want to accomplish next'' @ [CHR 0x22] @ [CHR 0x0A]
   @ ''  },'' @ [CHR 0x0A]
   @ ''  '' @ [CHR 0x22] @ ''action'' @ [CHR 0x22] @ '': {'' @ [CHR 0x0A]
   @ ''    '' @ [CHR 0x22] @ ''type'' @ [CHR 0x22] @ '': '' @ [CHR 0x22] @ ''action_name'' @ [CHR 0x22] @ '','' @ [CHR 0x0A]
   @ ''    // Additional parameters based on action type'' @ [CHR 0x0A]
   @ ''  }'' @ [CHR 0x0A]
   @ ''}'' @ [CHR 0x0A]
   @ [CHR 0x0A]
   @ ''Available actions:'' @ [CHR 0x0A]
   @ ''- click_element: Click on an element by XPath. Parameters: { xpath: string }'' @ [CHR 0x0A]
   @ ''- input_text: Type text into an input field. Parameters: { xpath: string, text: string }'' @ [CHR 0x0A]
   @ ''- extract_content: Extract information from the page. Parameters: { goal: string }'' @ [CHR 0x0A]
   @ ''- scroll: Scroll the page. Parameters: { direction: '' @ [CHR 0x22] @ ''up'' @ [CHR 0x22] @ ''|'' @ [CHR 0x22] @ ''down'' @ [CHR 0x22] @ '', amount: number (optional) }'' @ [CHR 0x0A]
   @ ''- wait: Wait for specified seconds. Parameters: { seconds: number (optional, default 1) }'' @ [CHR 0x0A]
   @ ''- done: Mark task as complete. Parameters: { text: string, success: boolean }'' @ [CHR 0x0A]
   @ [CHR 0x0A]
   @ ''Carefully analyze the webpage elements provided. Elements are identified by [xpath='' @ [CHR 0x22] @ ''...'' @ [CHR 0x22] @ ''] attributes. Include the element's current 'value' in your analysis. Choose actions that make progress toward completing the task efficiently. Avoid repeating actions that don't lead to progress.'' @ [CHR 0x0A]
   @ [CHR 0x0A]
   @ ''**CRITICAL: Before using 'input_text', check if the target element already has the desired value or similar content. Do NOT use 'input_text' if the field is already correctly filled. Target elements using the full 'xpath' value provided in the square brackets.**''"


text \<open>\<^verbatim>\<open>Math.ceil(text.length / 4)\<close>.\<close>

definition estimateTokens :: "string \<Rightarrow> int" where
  "estimateTokens s = (int (length s) + 3) div 4"

text \<open>Decimal rendering of an array index inside a template literal.\<close>

definition digit_char :: "nat \<Rightarrow> char" where
  "digit_char d = char_of (48 + d)"

function show_nat :: "nat \<Rightarrow> string" where
  "show_nat n = (if n < 10 then [digit_char n] else show_nat (n div 10) @ [digit_char (n mod 10)])"
  by pat_completeness auto
termination
  by (relation "measure id") auto

text \<open>A template literal renders a missing property as \<^verbatim>\<open>undefined\<close>; \<^verbatim>\<open>a || b\<close> on
  strings takes \<open>b\<close> when \<open>a\<close> is missing or empty.\<close>

definition js_str :: "string option \<Rightarrow> string" where
  "js_str v = (case v of None \<Rightarrow> ''undefined'' | Some s \<Rightarrow> s)"

definition js_or :: "string option \<Rightarrow> string \<Rightarrow> string" where
  "js_or v d = (case v of None \<Rightarrow> d | Some s \<Rightarrow> if s = [] then d else s)"

text \<open>An action object as it crosses the channel: \<^verbatim>\<open>type\<close> and the optional
  parameters \<^verbatim>\<open>xpath\<close>, \<^verbatim>\<open>index\<close>, \<^verbatim>\<open>text\<close>, \<^verbatim>\<open>goal\<close>, \<^verbatim>\<open>direction\<close>,
  \<^verbatim>\<open>amount\<close>, \<^verbatim>\<open>seconds\<close>, \<^verbatim>\<open>success\<close>; \<open>None\<close> is \<^verbatim>\<open>undefined\<close>.\<close>

record action =
  act_type :: "string option"
  act_xpath :: "string option"
  act_index :: "nat option"
  act_text :: "string option"
  act_goal :: "string option"
  act_direction :: "string option"
  act_amount :: "real option"
  act_seconds :: "real option"
  act_success :: "bool option"

record action_result =
  res_success :: bool
  res_message :: "string option"
  res_error :: "string option"
  res_action :: "action option"
  res_url :: "string option"

record history_entry =
  h_action :: action
  h_result :: action_result
  h_url :: string

record dom_state =
  st_url :: string
  st_title :: string
  interactiveElements :: string

record MessageManager =
  task :: string
  history :: MessageHistory
  maxTokens :: int
  actionHistory :: "history_entry list"

text \<open>The loop of \<^verbatim>\<open>MessageManager.addMessage\<close>:
  \<^verbatim>\<open>while (total > max) { if (!trimIfNeeded(max)) break; }\<close>.\<close>

function trim_while :: "int \<Rightarrow> MessageHistory \<Rightarrow> MessageHistory" where
  "trim_while mx h =
     (if getTotalTokens h > mx
      then (case trimIfNeeded mx h of
              (trimmed, h') \<Rightarrow> if \<not> trimmed then h' else trim_while mx h')
      else h)"
  by pat_completeness auto

lemma indexToRemove_less: "indexToRemove es = Some i \<Longrightarrow> i < length es"
  by (induction es arbitrary: i) (auto split: if_splits)

lemma trimIfNeeded_shrinks:
  "trimIfNeeded mx h = (True, h') \<Longrightarrow> length (messages h') < length (messages h)"
  by (auto simp: trimIfNeeded_def splice1_def split: if_splits option.splits
           dest!: indexToRemove_less)

termination trim_while
  by (relation "measure (\<lambda>(mx, h). length (messages h))")
     (auto simp: trimIfNeeded_shrinks)

definition MessageManager_addMessage :: "message \<Rightarrow> MessageManager \<Rightarrow> MessageManager" where
  "MessageManager_addMessage m mm =
     mm\<lparr>history :=
          trim_while (maxTokens mm)
            (MessageHistory_addMessage m \<lparr>tokens = estimateTokens (content m)\<rparr> (history mm))\<rparr>"

definition system_message :: message where
  "system_message = \<lparr>role = ''system'', content = systemContent\<rparr>"

definition addSystemMessage :: "MessageManager \<Rightarrow> MessageManager" where
  "addSystemMessage mm = MessageManager_addMessage system_message mm"

definition task_message :: "string \<Rightarrow> message" where
  "task_message t = \<lparr>role = ''user'', content = ''Your task is: '' @ [CHR 0x22] @ t @ [CHR 0x22]\<rparr>"

definition addTaskMessage :: "MessageManager \<Rightarrow> MessageManager" where
  "addTaskMessage mm = MessageManager_addMessage (task_message (task mm)) mm"

text \<open>The constructor: \<^verbatim>\<open>options.maxTokens || 8000\<close> replaces a missing or zero budget.\<close>

definition MessageManager_new :: "string \<Rightarrow> int option \<Rightarrow> MessageManager" where
  "MessageManager_new t opt =
     addTaskMessage (addSystemMessage
       \<lparr>task = t, history = MessageHistory_new,
        maxTokens = (case opt of None \<Rightarrow> 8000 | Some n \<Rightarrow> if n = 0 then 8000 else n),
        actionHistory = []\<rparr>)"

definition formatStateMessage :: "MessageManager \<Rightarrow> dom_state \<Rightarrow> string" where
  "formatStateMessage mm st =
     ''Task: '' @ task mm @ [CHR 0x0A, CHR 0x0A]
     @ ''Current URL: '' @ st_url st @ [CHR 0x0A] @ ''Title: '' @ st_title st @ [CHR 0x0A, CHR 0x0A]
     @ ''Interactive elements:'' @ [CHR 0x0A]
     @ interactiveElements st"

definition actionStr :: "nat \<Rightarrow> history_entry \<Rightarrow> string" where
  "actionStr i e =
     (let a = h_action e;
          s = ''Step '' @ show_nat (i + 1) @ '': '' @ js_str (act_type a)
      in if act_type a = Some ''click_element'' \<and> act_xpath a \<noteq> None
           then s @ '' on element ['' @ js_str (act_xpath a) @ '']''
         else if act_type a = Some ''input_text'' \<and> act_xpath a \<noteq> None
           then s @ '' on element ['' @ js_str (act_xpath a) @ ''] with text '' @ [CHR 0x22]
                  @ js_str (act_text a) @ [CHR 0x22]
         else if act_type a = Some ''extract_content''
           then s @ '' with goal '' @ [CHR 0x22] @ js_str (act_goal a) @ [CHR 0x22]
         else if act_type a = Some ''scroll''
           then s @ '' '' @ js_str (act_direction a)
         else s)"

fun summary_lines :: "nat \<Rightarrow> history_entry list \<Rightarrow> string" where
  "summary_lines i [] = []"
| "summary_lines i (e # es) =
     actionStr i e @ '', '' @ (if res_success (h_result e) then ''succeeded'' else ''failed'')
       @ [CHR 0x0A] @ summary_lines (Suc i) es"

definition generateActionSummary :: "MessageManager \<Rightarrow> string" where
  "generateActionSummary mm =
     (if actionHistory mm = [] then []
      else ''Previous actions:'' @ [CHR 0x0A] @ summary_lines 0 (actionHistory mm))"

definition addStateMessage :: "dom_state \<Rightarrow> MessageManager \<Rightarrow> MessageManager" where
  "addStateMessage st mm =
     (let summary = generateActionSummary mm;
          mm1 = (if summary \<noteq> []
                 then MessageManager_addMessage \<lparr>role = ''system'', content = summary\<rparr> mm
                 else mm)
      in MessageManager_addMessage \<lparr>role = ''user'', content = formatStateMessage mm1 st\<rparr> mm1)"

definition addActionToHistory :: "action \<Rightarrow> action_result \<Rightarrow> MessageManager \<Rightarrow> MessageManager" where
  "addActionToHistory a r mm =
     mm\<lparr>actionHistory := actionHistory mm
            @ [\<lparr>h_action = a, h_result = r, h_url = js_or (res_url r) ''unknown''\<rparr>]\<rparr>"

definition addActionResultMessage :: "action_result \<Rightarrow> MessageManager \<Rightarrow> MessageManager" where
  "addActionResultMessage r mm =
     (let c = (if res_success r then ''Action completed: '' @ js_or (res_message r) ''Success''
               else ''Action failed: '' @ js_or (res_error r) ''Unknown error'');
          mm1 = MessageManager_addMessage \<lparr>role = ''system'', content = c\<rparr> mm
      in case res_action r of None \<Rightarrow> mm1 | Some a \<Rightarrow> addActionToHistory a r mm1)"

definition addNavigationMessage :: "string \<Rightarrow> MessageManager \<Rightarrow> MessageManager" where
  "addNavigationMessage u mm =
     MessageManager_addMessage
       \<lparr>role = ''system'', content = ''Page navigation occurred. New URL: '' @ u\<rparr> mm"

definition getMessages :: "MessageManager \<Rightarrow> message list" where
  "getMessages mm = MessageHistory_getMessages (history mm)"

text \<open>Sequences of calls, for the statements that quantify over them.\<close>

datatype history_op = HAdd message MessageMetadata | HTrim int

fun history_step :: "MessageHistory \<Rightarrow> history_op \<Rightarrow> MessageHistory" where
  "history_step h (HAdd m md) = MessageHistory_addMessage m md h"
| "history_step h (HTrim mx) = snd (trimIfNeeded mx h)"

datatype manager_op =
    AddMessage message
  | AddSystem
  | AddTask
  | AddState dom_state
  | AddActionResult action_result
  | AddNavigation string

fun manager_step :: "MessageManager \<Rightarrow> manager_op \<Rightarrow> MessageManager" where
  "manager_step mm (AddMessage m) = MessageManager_addMessage m mm"
| "manager_step mm AddSystem = addSystemMessage mm"
| "manager_step mm AddTask = addTaskMessage mm"
| "manager_step mm (AddState st) = addStateMessage st mm"
| "manager_step mm (AddActionResult r) = addActionResultMessage r mm"
| "manager_step mm (AddNavigation u) = addNavigationMessage u mm"

subsection \<open>Invariant and example\<close>

definition tokens_sum :: "MessageHistory \<Rightarrow> int" where
  "tokens_sum h = sum_list (map (\<lambda>e. tokens (metadata e)) (messages h))"

definition is_system :: "message \<Rightarrow> bool" where
  "is_system m = (role m = ''system'')"

definition run_history :: "history_op list \<Rightarrow> MessageHistory" where
  "run_history ops = foldl history_step MessageHistory_new ops"

definition run_manager :: "string \<Rightarrow> int option \<Rightarrow> manager_op list \<Rightarrow> MessageManager" where
  "run_manager t opt ops = foldl manager_step (MessageManager_new t opt) ops"

text \<open>The invariant every call of the manager's \<open>addMessage\<close> establishes.\<close>

definition manager_inv :: "MessageManager \<Rightarrow> bool" where
  "manager_inv mm \<longleftrightarrow>
     getMessages mm \<noteq> [] \<and> hd (getMessages mm) = system_message
     \<and> (getTotalTokens (history mm) \<le> maxTokens mm \<or> list_all is_system (getMessages mm))
     \<and> getTotalTokens (history mm) = tokens_sum (history mm)"

definition big_state :: dom_state where
  "big_state = \<lparr>st_url = ''u'', st_title = ''x'', interactiveElements = replicate 30364 (CHR ''a'')\<rparr>"

text \<open>The entries of role \<open>system\<close>, in order.\<close>

definition system_entries :: "MessageHistory \<Rightarrow> entry list" where
  "system_entries h = filter (\<lambda>e. is_system (msg e)) (messages h)"

text \<open>The vocabulary of the eviction rule: the entries that may be evicted (those whose role is
  not \<open>system\<close>), the summed estimate of a list of entries, the list without its \<open>k\<close> oldest
  evictable entries, and the entry \<open>addMessage\<close> stores for a message.\<close>

definition evictable :: "entry list \<Rightarrow> entry list" where
  "evictable es = filter (\<lambda>e. \<not> is_system (msg e)) es"

definition cost :: "entry list \<Rightarrow> int" where
  "cost es = sum_list (map (\<lambda>e. tokens (metadata e)) es)"

fun drop_oldest :: "nat \<Rightarrow> entry list \<Rightarrow> entry list" where
  "drop_oldest 0 es = es"
| "drop_oldest (Suc k) [] = []"
| "drop_oldest (Suc k) (e # es) =
     (if is_system (msg e) then e # drop_oldest (Suc k) es else drop_oldest k es)"

definition entry_of :: "message \<Rightarrow> entry" where
  "entry_of m = \<lparr>msg = m, metadata = \<lparr>tokens = estimateTokens (content m)\<rparr>\<rparr>"

definition big_message :: message where
  "big_message =
     \<lparr>role = ''user'', content = formatStateMessage (MessageManager_new ''t'' None) big_state\<rparr>"

subsection \<open>Properties of the conversation manager\<close>

declare trim_while.simps [simp del]

lemma sum_list_splice1:
  fixes f :: "'a \<Rightarrow> int"
  shows "i < length xs \<Longrightarrow> sum_list (map f (splice1 i xs)) = sum_list (map f xs) - f (xs ! i)"
proof -
  assume i: "i < length xs"
  have "xs = take i xs @ (xs ! i) # drop (Suc i) xs"
    using i by (simp add: id_take_nth_drop)
  then have "sum_list (map f xs) = sum_list (map f (take i xs)) + f (xs ! i) + sum_list (map f (drop (Suc i) xs))"
    by (metis (no_types, lifting) add.assoc list.simps(9) map_append sum_list.Cons sum_list.append)
  then show ?thesis by (simp add: splice1_def)
qed

lemma addMessage_tokens_sum:
  "currentTokens h = tokens_sum h \<Longrightarrow>
   currentTokens (MessageHistory_addMessage m md h) = tokens_sum (MessageHistory_addMessage m md h)"
  by (simp add: MessageHistory_addMessage_def tokens_sum_def)

lemma trimIfNeeded_tokens_sum:
  "currentTokens h = tokens_sum h \<Longrightarrow>
   currentTokens (snd (trimIfNeeded mx h)) = tokens_sum (snd (trimIfNeeded mx h))"
  by (auto simp: trimIfNeeded_def tokens_sum_def sum_list_splice1 split: option.splits
           dest: indexToRemove_less)

lemma history_step_tokens_sum:
  "currentTokens h = tokens_sum h \<Longrightarrow> currentTokens (history_step h x) = tokens_sum (history_step h x)"
  by (cases x) (simp_all add: addMessage_tokens_sum trimIfNeeded_tokens_sum)

lemma foldl_history_tokens_sum:
  "currentTokens h = tokens_sum h \<Longrightarrow>
   currentTokens (foldl history_step h ops) = tokens_sum (foldl history_step h ops)"
  by (induction ops arbitrary: h) (simp_all add: history_step_tokens_sum)

text \<open>
  Claim C10.  For every sequence of \<open>addMessage\<close> and \<open>trimIfNeeded\<close> calls on a fresh
  \<open>MessageHistory\<close>, the running counter \<open>currentTokens\<close> equals the sum of the token
  estimates in the metadata of the entries currently stored, and \<open>getTotalTokens\<close> returns that
  sum.
\<close>

theorem currentTokens_is_sum:
  "currentTokens (run_history ops) = tokens_sum (run_history ops) \<and>
   getTotalTokens (run_history ops) = tokens_sum (run_history ops)"
  unfolding run_history_def getTotalTokens_def
  using foldl_history_tokens_sum [of MessageHistory_new ops]
  by (simp add: MessageHistory_new_def tokens_sum_def)

lemma trim_while_post:
  "getTotalTokens (trim_while mx h) \<le> mx \<or> indexToRemove (messages (trim_while mx h)) = None"
proof (induction mx h rule: trim_while.induct)
  case (1 mx h)
  show ?case
  proof (cases "getTotalTokens h > mx")
    case False
    then show ?thesis by (simp add: trim_while.simps [of mx h])
  next
    case True
    obtain trimmed h' where t: "trimIfNeeded mx h = (trimmed, h')" by (cases "trimIfNeeded mx h")
    show ?thesis
    proof (cases trimmed)
      case True
      then have nn: "\<not> \<not> trimmed" by simp
      from 1 [OF \<open>getTotalTokens h > mx\<close> t [symmetric] nn] t \<open>getTotalTokens h > mx\<close> True
      show ?thesis by (simp add: trim_while.simps [of mx h])
    next
      case False
      with t True have "h' = h" "indexToRemove (messages h) = None"
        by (auto simp: trimIfNeeded_def getTotalTokens_def split: if_splits option.splits)
      with t False True show ?thesis by (simp add: trim_while.simps [of mx h])
    qed
  qed
qed

lemma indexToRemove_None: "indexToRemove es = None \<longleftrightarrow> list_all (\<lambda>e. is_system (msg e)) es"
  by (induction es) (auto simp: is_system_def)

lemma trim_while_tokens_sum:
  "currentTokens h = tokens_sum h \<Longrightarrow> currentTokens (trim_while mx h) = tokens_sum (trim_while mx h)"
proof (induction mx h rule: trim_while.induct)
  case (1 mx h)
  show ?case
  proof (cases "getTotalTokens h > mx")
    case False
    with 1 show ?thesis by (simp add: trim_while.simps [of mx h])
  next
    case True
    obtain trimmed h' where t: "trimIfNeeded mx h = (trimmed, h')" by (cases "trimIfNeeded mx h")
    have h': "currentTokens h' = tokens_sum h'"
      using trimIfNeeded_tokens_sum [OF "1.prems", of mx] t by simp
    show ?thesis
    proof (cases trimmed)
      case True
      then have nn: "\<not> \<not> trimmed" by simp
      from "1.IH" [OF \<open>getTotalTokens h > mx\<close> t [symmetric] nn h'] t \<open>getTotalTokens h > mx\<close> True
      show ?thesis by (simp add: trim_while.simps [of mx h])
    next
      case False
      with t True h' show ?thesis by (simp add: trim_while.simps [of mx h])
    qed
  qed
qed

lemma indexToRemove_pos:
  "es \<noteq> [] \<Longrightarrow> is_system (msg (hd es)) \<Longrightarrow> indexToRemove es = Some i \<Longrightarrow> 0 < i"
  by (cases es) (auto simp: is_system_def split: if_splits)

lemma trimIfNeeded_hd:
  assumes "messages h \<noteq> []" "is_system (msg (hd (messages h)))"
  shows "messages (snd (trimIfNeeded mx h)) \<noteq> [] \<and>
         hd (messages (snd (trimIfNeeded mx h))) = hd (messages h)"
proof (cases "currentTokens h \<le> mx \<or> indexToRemove (messages h) = None")
  case True
  with assms show ?thesis by (auto simp: trimIfNeeded_def)
next
  case False
  then obtain i where i: "indexToRemove (messages h) = Some i" by auto
  from indexToRemove_pos [OF assms i] have "0 < i" .
  moreover from indexToRemove_less [OF i] have "i < length (messages h)" .
  ultimately have "take i (messages h) \<noteq> [] \<and> hd (take i (messages h)) = hd (messages h)"
    by (cases "messages h"; cases i) auto
  with False i show ?thesis by (simp add: trimIfNeeded_def splice1_def)
qed

lemma trim_while_hd:
  "messages h \<noteq> [] \<Longrightarrow> is_system (msg (hd (messages h))) \<Longrightarrow>
   messages (trim_while mx h) \<noteq> [] \<and> hd (messages (trim_while mx h)) = hd (messages h)"
proof (induction mx h rule: trim_while.induct)
  case (1 mx h)
  show ?case
  proof (cases "getTotalTokens h > mx")
    case False
    with "1.prems" show ?thesis by (simp add: trim_while.simps [of mx h])
  next
    case True
    obtain trimmed h' where t: "trimIfNeeded mx h = (trimmed, h')" by (cases "trimIfNeeded mx h")
    have h': "messages h' \<noteq> [] \<and> hd (messages h') = hd (messages h)"
      using trimIfNeeded_hd [OF "1.prems", of mx] t by simp
    show ?thesis
    proof (cases trimmed)
      case True
      then have nn: "\<not> \<not> trimmed" by simp
      from h' "1.prems" have "messages h' \<noteq> []" "is_system (msg (hd (messages h')))" by simp_all
      from "1.IH" [OF \<open>getTotalTokens h > mx\<close> t [symmetric] nn this] h' t \<open>getTotalTokens h > mx\<close> True
      show ?thesis by (simp add: trim_while.simps [of mx h])
    next
      case False
      with t True h' show ?thesis by (simp add: trim_while.simps [of mx h])
    qed
  qed
qed

lemma is_system_system_message: "is_system system_message"
  by (simp add: is_system_def system_message_def)

lemma addMessage_establishes:
  assumes nonempty: "messages h1 \<noteq> []"
    and first: "msg (hd (messages h1)) = system_message"
    and sum: "currentTokens h1 = tokens_sum h1"
  shows "manager_inv (mm\<lparr>history := trim_while (maxTokens mm) h1\<rparr>)"
proof -
  let ?h2 = "trim_while (maxTokens mm) h1"
  have sys: "is_system (msg (hd (messages h1)))"
    using first by (simp add: is_system_system_message)
  have hd2: "messages ?h2 \<noteq> [] \<and> hd (messages ?h2) = hd (messages h1)"
    using trim_while_hd [OF nonempty sys] .
  have post: "getTotalTokens ?h2 \<le> maxTokens mm \<or> list_all (\<lambda>e. is_system (msg e)) (messages ?h2)"
    using trim_while_post [of "maxTokens mm" h1] by (simp add: indexToRemove_None)
  have sum2: "currentTokens ?h2 = tokens_sum ?h2"
    using trim_while_tokens_sum [OF sum] .
  from hd2 first post sum2 show ?thesis
    by (auto simp: manager_inv_def getMessages_def MessageHistory_getMessages_def hd_map
                   list_all_iff getTotalTokens_def)
qed

lemma addMessage_first:
  assumes "messages (history mm) = []" "currentTokens (history mm) = 0"
  shows "manager_inv (MessageManager_addMessage system_message mm)"
  unfolding MessageManager_addMessage_def
  by (rule addMessage_establishes)
     (simp_all add: MessageHistory_addMessage_def tokens_sum_def assms)

lemma addMessage_inv:
  assumes "manager_inv mm"
  shows "manager_inv (MessageManager_addMessage m mm)"
  unfolding MessageManager_addMessage_def
proof (rule addMessage_establishes)
  let ?h1 = "MessageHistory_addMessage m \<lparr>tokens = estimateTokens (content m)\<rparr> (history mm)"
  from assms have ne: "messages (history mm) \<noteq> []"
    unfolding manager_inv_def getMessages_def MessageHistory_getMessages_def by simp
  from assms ne have first: "msg (hd (messages (history mm))) = system_message"
    unfolding manager_inv_def getMessages_def MessageHistory_getMessages_def by (simp add: hd_map)
  from assms have sum: "currentTokens (history mm) = tokens_sum (history mm)"
    unfolding manager_inv_def getTotalTokens_def by blast
  show "messages ?h1 \<noteq> []" by (simp add: MessageHistory_addMessage_def)
  show "msg (hd (messages ?h1)) = system_message"
    using ne first by (simp add: MessageHistory_addMessage_def)
  show "currentTokens ?h1 = tokens_sum ?h1"
    using sum by (rule addMessage_tokens_sum)
qed

lemma manager_inv_actionHistory:
  "manager_inv mm \<Longrightarrow> manager_inv (mm\<lparr>actionHistory := ah\<rparr>)"
  by (auto simp: manager_inv_def getMessages_def)

lemma MessageManager_new_inv: "manager_inv (MessageManager_new t opt)"
  unfolding MessageManager_new_def addTaskMessage_def addSystemMessage_def
  by (intro addMessage_inv addMessage_first) (simp_all add: MessageHistory_new_def)

lemma manager_step_inv: "manager_inv mm \<Longrightarrow> manager_inv (manager_step mm x)"
  by (cases x)
     (auto simp: addSystemMessage_def addTaskMessage_def addStateMessage_def Let_def
                 addActionResultMessage_def addActionToHistory_def addNavigationMessage_def
           intro!: addMessage_inv manager_inv_actionHistory split: option.splits)

lemma foldl_manager_inv: "manager_inv mm \<Longrightarrow> manager_inv (foldl manager_step mm ops)"
  by (induction ops arbitrary: mm) (simp_all add: manager_step_inv)

text \<open>The entry \<open>trimIfNeeded\<close> picks is the first one whose role is not \<open>system\<close>.\<close>

lemma indexToRemove_first:
  "indexToRemove es = Some i \<Longrightarrow>
   \<not> is_system (msg (es ! i)) \<and> list_all (\<lambda>e. is_system (msg e)) (take i es)"
  by (induction es arbitrary: i) (auto simp: is_system_def split: if_splits)

lemma filter_splice1:
  "i < length xs \<Longrightarrow> \<not> P (xs ! i) \<Longrightarrow> filter P (splice1 i xs) = filter P xs"
proof -
  assume i: "i < length xs" and n: "\<not> P (xs ! i)"
  have "filter P xs = filter P (take i xs @ xs ! i # drop (Suc i) xs)"
    using i by (simp add: id_take_nth_drop [symmetric])
  with n show ?thesis by (simp add: splice1_def)
qed

lemma trimIfNeeded_system_entries:
  "system_entries (snd (trimIfNeeded mx h)) = system_entries h"
proof (cases "indexToRemove (messages h)")
  case None
  then show ?thesis by (simp add: trimIfNeeded_def)
next
  case (Some i)
  from indexToRemove_less [OF Some] indexToRemove_first [OF Some]
  have "filter (\<lambda>e. is_system (msg e)) (splice1 i (messages h))
          = filter (\<lambda>e. is_system (msg e)) (messages h)"
    by (intro filter_splice1) simp_all
  with Some show ?thesis by (simp add: trimIfNeeded_def system_entries_def)
qed

lemma trim_while_system_entries: "system_entries (trim_while mx h) = system_entries h"
proof (induction mx h rule: trim_while.induct)
  case (1 mx h)
  show ?case
  proof (cases "getTotalTokens h > mx")
    case False
    then show ?thesis by (simp add: trim_while.simps [of mx h])
  next
    case True
    obtain trimmed h' where t: "trimIfNeeded mx h = (trimmed, h')" by (cases "trimIfNeeded mx h")
    have h': "system_entries h' = system_entries h"
      using trimIfNeeded_system_entries [of mx h] t by simp
    show ?thesis
    proof (cases trimmed)
      case True
      then have nn: "\<not> \<not> trimmed" by simp
      from 1 [OF \<open>getTotalTokens h > mx\<close> t [symmetric] nn] h' t \<open>getTotalTokens h > mx\<close> True
      show ?thesis by (simp add: trim_while.simps [of mx h])
    next
      case False
      with t True h' show ?thesis by (simp add: trim_while.simps [of mx h])
    qed
  qed
qed

lemma addMessage_system_entries:
  "\<exists>later. system_entries (history (MessageManager_addMessage m mm))
             = system_entries (history mm) @ later"
  by (simp add: MessageManager_addMessage_def trim_while_system_entries)
     (simp add: system_entries_def MessageHistory_addMessage_def)

lemma manager_step_system_entries:
  "\<exists>later. system_entries (history (manager_step mm x)) = system_entries (history mm) @ later"
proof (cases x)
  case (AddMessage m)
  then show ?thesis by (simp add: addMessage_system_entries)
next
  case AddSystem
  then show ?thesis by (simp add: addSystemMessage_def addMessage_system_entries)
next
  case AddTask
  then show ?thesis by (simp add: addTaskMessage_def addMessage_system_entries)
next
  case (AddState st)
  let ?s = "generateActionSummary mm"
  let ?mm1 = "if ?s \<noteq> [] then MessageManager_addMessage \<lparr>role = ''system'', content = ?s\<rparr> mm else mm"
  obtain l1 where l1: "system_entries (history ?mm1) = system_entries (history mm) @ l1"
    using addMessage_system_entries [of "\<lparr>role = ''system'', content = ?s\<rparr>" mm]
    by (cases "?s \<noteq> []") auto
  obtain l2 where "system_entries (history (MessageManager_addMessage
        \<lparr>role = ''user'', content = formatStateMessage ?mm1 st\<rparr> ?mm1))
      = system_entries (history ?mm1) @ l2"
    using addMessage_system_entries by blast
  with l1 AddState show ?thesis by (simp add: addStateMessage_def Let_def)
next
  case (AddActionResult r)
  then show ?thesis
    using addMessage_system_entries
    by (cases "res_action r")
       (simp_all add: addActionResultMessage_def Let_def addActionToHistory_def)
next
  case (AddNavigation u)
  then show ?thesis by (simp add: addNavigationMessage_def addMessage_system_entries)
qed

lemma foldl_system_entries:
  "\<exists>later. system_entries (history (foldl manager_step mm ops)) = system_entries (history mm) @ later"
proof (induction ops arbitrary: mm)
  case Nil
  show ?case by simp
next
  case (Cons x ops)
  obtain l1 where "system_entries (history (manager_step mm x)) = system_entries (history mm) @ l1"
    using manager_step_system_entries by blast
  moreover obtain l2 where "system_entries (history (foldl manager_step (manager_step mm x) ops))
      = system_entries (history (manager_step mm x)) @ l2"
    using Cons.IH by blast
  ultimately show ?case by simp
qed

lemma drop_oldest_Nil [simp]: "drop_oldest k [] = []"
  by (cases k) simp_all

lemma drop_oldest_Suc: "drop_oldest (Suc k) es = drop_oldest k (drop_oldest (Suc 0) es)"
proof (induction es arbitrary: k)
  case Nil
  show ?case by simp
next
  case (Cons e es)
  show ?case
  proof (cases "is_system (msg e)")
    case False
    then show ?thesis by simp
  next
    case True
    show ?thesis
    proof (cases k)
      case 0
      with True show ?thesis by simp
    next
      case (Suc k')
      with True Cons [of k] show ?thesis by simp
    qed
  qed
qed

lemma indexToRemove_drop_oldest:
  "indexToRemove es = Some i \<Longrightarrow> splice1 i es = drop_oldest (Suc 0) es"
proof (induction es arbitrary: i)
  case Nil
  then show ?case by simp
next
  case (Cons e es)
  show ?case
  proof (cases "is_system (msg e)")
    case False
    with Cons.prems have "i = 0" by (simp add: is_system_def)
    with False show ?thesis by (simp add: splice1_def)
  next
    case True
    with Cons.prems obtain i' where i': "indexToRemove es = Some i'" "i = Suc i'"
      by (auto simp: is_system_def)
    from Cons.IH [OF i'(1)] i'(2) True show ?thesis by (simp add: splice1_def)
  qed
qed

lemma indexToRemove_evictable: "indexToRemove es = None \<longleftrightarrow> evictable es = []"
  by (induction es) (auto simp: is_system_def evictable_def)

lemma tokens_sum_cost: "tokens_sum h = cost (messages h)"
  by (simp add: tokens_sum_def cost_def)

lemma trim_while_all_system:
  "indexToRemove (messages h) = None \<Longrightarrow> trim_while mx h = h"
  by (simp add: trim_while.simps [of mx h] trimIfNeeded_def)

lemma trim_while_fits: "getTotalTokens h \<le> mx \<Longrightarrow> trim_while mx h = h"
  by (simp add: trim_while.simps [of mx h])

lemma trim_while_evicts:
  assumes "getTotalTokens h > mx" and "indexToRemove (messages h) = Some i"
  shows "trim_while mx h =
           trim_while mx (h\<lparr>messages := drop_oldest (Suc 0) (messages h),
                            currentTokens := currentTokens h - tokens (metadata (messages h ! i))\<rparr>)"
  using assms
  by (simp add: trim_while.simps [of mx h] trimIfNeeded_def getTotalTokens_def
                indexToRemove_drop_oldest)

lemma trim_while_drop_oldest:
  "currentTokens h = tokens_sum h \<Longrightarrow>
   \<exists>k. messages (trim_while mx h) = drop_oldest k (messages h)
      \<and> (\<forall>j<k. cost (drop_oldest j (messages h)) > mx)
      \<and> (cost (drop_oldest k (messages h)) \<le> mx \<or> evictable (drop_oldest k (messages h)) = [])"
proof (induction "length (messages h)" arbitrary: h rule: less_induct)
  case less
  show ?case
  proof (cases "getTotalTokens h \<le> mx")
    case True
    with less.prems have "cost (drop_oldest 0 (messages h)) \<le> mx"
      by (simp add: getTotalTokens_def tokens_sum_cost)
    moreover have "messages (trim_while mx h) = drop_oldest 0 (messages h)"
      using True by (simp add: trim_while_fits)
    ultimately show ?thesis by blast
  next
    case False
    then have gt: "getTotalTokens h > mx" by simp
    show ?thesis
    proof (cases "indexToRemove (messages h)")
      case None
      then have "evictable (drop_oldest 0 (messages h)) = []"
        by (simp add: indexToRemove_evictable)
      moreover have "messages (trim_while mx h) = drop_oldest 0 (messages h)"
        using None by (simp add: trim_while_all_system)
      ultimately show ?thesis by blast
    next
      case (Some i)
      let ?h' = "h\<lparr>messages := drop_oldest (Suc 0) (messages h),
                    currentTokens := currentTokens h - tokens (metadata (messages h ! i))\<rparr>"
      have sp: "drop_oldest (Suc 0) (messages h) = splice1 i (messages h)"
        using indexToRemove_drop_oldest [OF Some] by simp
      have il: "i < length (messages h)" using Some by (rule indexToRemove_less)
      have len: "length (messages ?h') < length (messages h)"
        using il by (simp add: sp splice1_def)
      have sum: "currentTokens ?h' = tokens_sum ?h'"
        using less.prems il by (simp add: sp tokens_sum_def sum_list_splice1)
      from less.hyps [OF len sum] obtain k where
        k1: "messages (trim_while mx ?h') = drop_oldest k (messages ?h')"
        and k2: "\<forall>j<k. cost (drop_oldest j (messages ?h')) > mx"
        and k3: "cost (drop_oldest k (messages ?h')) \<le> mx \<or> evictable (drop_oldest k (messages ?h')) = []"
        by blast
      have e: "trim_while mx h = trim_while mx ?h'"
        using gt Some by (rule trim_while_evicts)
      have d: "drop_oldest j (messages ?h') = drop_oldest (Suc j) (messages h)" for j
        using drop_oldest_Suc [of j "messages h"] by simp
      have c0: "cost (drop_oldest 0 (messages h)) > mx"
        using gt less.prems by (simp add: getTotalTokens_def tokens_sum_cost)
      have m: "\<forall>j<Suc k. cost (drop_oldest j (messages h)) > mx"
      proof (intro allI impI)
        fix j assume j: "j < Suc k"
        show "cost (drop_oldest j (messages h)) > mx"
        proof (cases j)
          case 0
          with c0 show ?thesis by simp
        next
          case (Suc j')
          with j have "j' < k" by simp
          with k2 have "cost (drop_oldest j' (messages ?h')) > mx" by blast
          with Suc show ?thesis unfolding d by simp
        qed
      qed
      from k1 k3 have "messages (trim_while mx h) = drop_oldest (Suc k) (messages h)"
        "cost (drop_oldest (Suc k) (messages h)) \<le> mx \<or> evictable (drop_oldest (Suc k) (messages h)) = []"
        unfolding e d by simp_all
      with m show ?thesis by blast
    qed
  qed
qed

lemma addMessage_drop_oldest:
  assumes "manager_inv mm"
  shows "\<exists>k. messages (history (MessageManager_addMessage m mm))
               = drop_oldest k (messages (history mm) @ [entry_of m])
      \<and> (\<forall>j<k. cost (drop_oldest j (messages (history mm) @ [entry_of m])) > maxTokens mm)
      \<and> (cost (drop_oldest k (messages (history mm) @ [entry_of m])) \<le> maxTokens mm
         \<or> evictable (drop_oldest k (messages (history mm) @ [entry_of m])) = [])"
proof -
  let ?h1 = "MessageHistory_addMessage m \<lparr>tokens = estimateTokens (content m)\<rparr> (history mm)"
  from assms have "currentTokens (history mm) = tokens_sum (history mm)"
    unfolding manager_inv_def getTotalTokens_def by blast
  then have s: "currentTokens ?h1 = tokens_sum ?h1" by (rule addMessage_tokens_sum)
  have m: "messages ?h1 = messages (history mm) @ [entry_of m]"
    by (simp add: MessageHistory_addMessage_def entry_of_def)
  from trim_while_drop_oldest [OF s, of "maxTokens mm"] show ?thesis
    unfolding m by (simp add: MessageManager_addMessage_def)
qed

lemma addMessage_total:
  assumes "manager_inv mm"
  shows "getTotalTokens (history (MessageManager_addMessage m mm))
           = cost (messages (history (MessageManager_addMessage m mm)))"
  using addMessage_inv [OF assms, of m] unfolding manager_inv_def tokens_sum_cost by blast

text \<open>The constructor.\<close>

lemma MessageManager_new_messages:
  "messages (history (MessageManager_new t opt)) =
     (if estimateTokens systemContent + estimateTokens (content (task_message t))
           \<le> maxTokens (MessageManager_new t opt)
      then [entry_of system_message, entry_of (task_message t)]
      else [entry_of system_message])"
proof -
  define mx :: int where "mx = (case opt of None \<Rightarrow> 8000 | Some n \<Rightarrow> if n = 0 then 8000 else n)"
  define mm0 where "mm0 = \<lparr>task = t, history = MessageHistory_new, maxTokens = mx, actionHistory = []\<rparr>"
  let ?h1 = "\<lparr>messages = [entry_of system_message], currentTokens = estimateTokens systemContent\<rparr>"
  let ?h2 = "\<lparr>messages = [entry_of system_message, entry_of (task_message t)],
              currentTokens = estimateTokens systemContent + estimateTokens (content (task_message t))\<rparr>"
  have c: "content system_message = systemContent" by (simp add: system_message_def)
  have i1: "indexToRemove (messages ?h1) = None"
    by (simp add: entry_of_def system_message_def)
  have a1: "addSystemMessage mm0 = mm0\<lparr>history := ?h1\<rparr>"
    using trim_while_all_system [OF i1, of mx]
    by (simp add: addSystemMessage_def MessageManager_addMessage_def mm0_def
          MessageHistory_addMessage_def MessageHistory_new_def entry_of_def c)
  have a2: "addTaskMessage (mm0\<lparr>history := ?h1\<rparr>) = mm0\<lparr>history := trim_while mx ?h2\<rparr>"
    by (simp add: addTaskMessage_def MessageManager_addMessage_def mm0_def
          MessageHistory_addMessage_def entry_of_def)
  have n: "MessageManager_new t opt = mm0\<lparr>history := trim_while mx ?h2\<rparr>"
    unfolding MessageManager_new_def mx_def [symmetric] mm0_def [symmetric] a1 a2 ..
  have mxe: "maxTokens (MessageManager_new t opt) = mx" unfolding n by (simp add: mm0_def)
  have i2: "indexToRemove (messages ?h2) = Some 1"
    by (simp add: entry_of_def system_message_def task_message_def)
  show ?thesis
  proof (cases "estimateTokens systemContent + estimateTokens (content (task_message t)) \<le> mx")
    case True
    then have "trim_while mx ?h2 = ?h2" by (simp add: trim_while_fits getTotalTokens_def)
    with True show ?thesis unfolding mxe unfolding n by simp
  next
    case False
    then have gt: "getTotalTokens ?h2 > mx" by (simp add: getTotalTokens_def)
    have d: "drop_oldest (Suc 0) (messages ?h2) = [entry_of system_message]"
      by (simp add: entry_of_def is_system_def system_message_def task_message_def)
    have tk: "tokens (metadata (messages ?h2 ! 1)) = estimateTokens (content (task_message t))"
      by (simp add: entry_of_def)
    have "trim_while mx ?h2 = trim_while mx ?h1"
      using trim_while_evicts [OF gt i2] unfolding d tk by simp
    also have "\<dots> = ?h1" using i1 by (rule trim_while_all_system)
    finally show ?thesis using False unfolding mxe unfolding n by simp
  qed
qed

lemma additions_I:
  "length ms \<le> 2 \<Longrightarrow> history a = history (foldl manager_step mm (map AddMessage ms)) \<Longrightarrow>
   \<exists>ms. length ms \<le> 2 \<and> history a = history (foldl manager_step mm (map AddMessage ms))"
  by blast

lemma step_as_additions:
  "\<exists>ms. length ms \<le> 2
      \<and> history (manager_step mm x) = history (foldl manager_step mm (map AddMessage ms))"
proof (cases x)
  case (AddMessage m)
  then have "history (manager_step mm x) = history (foldl manager_step mm (map AddMessage [m]))"
    by simp
  then show ?thesis by (rule additions_I [rotated]) simp
next
  case AddSystem
  then have "history (manager_step mm x)
               = history (foldl manager_step mm (map AddMessage [system_message]))"
    by (simp add: addSystemMessage_def)
  then show ?thesis by (rule additions_I [rotated]) simp
next
  case AddTask
  then have "history (manager_step mm x)
               = history (foldl manager_step mm (map AddMessage [task_message (task mm)]))"
    by (simp add: addTaskMessage_def)
  then show ?thesis by (rule additions_I [rotated]) simp
next
  case (AddState st)
  let ?s = "generateActionSummary mm"
  let ?m1 = "\<lparr>role = ''system'', content = ?s\<rparr>"
  show ?thesis
  proof (cases "?s \<noteq> []")
    case True
    let ?m2 = "\<lparr>role = ''user'', content = formatStateMessage (MessageManager_addMessage ?m1 mm) st\<rparr>"
    from True AddState have "history (manager_step mm x)
        = history (foldl manager_step mm (map AddMessage [?m1, ?m2]))"
      by (simp add: addStateMessage_def Let_def)
    then show ?thesis by (rule additions_I [rotated]) simp
  next
    case False
    let ?m2 = "\<lparr>role = ''user'', content = formatStateMessage mm st\<rparr>"
    from False AddState have "history (manager_step mm x)
        = history (foldl manager_step mm (map AddMessage [?m2]))"
      by (simp add: addStateMessage_def Let_def)
    then show ?thesis by (rule additions_I [rotated]) simp
  qed
next
  case (AddActionResult r)
  let ?c = "if res_success r then ''Action completed: '' @ js_or (res_message r) ''Success''
               else ''Action failed: '' @ js_or (res_error r) ''Unknown error''"
  from AddActionResult have "history (manager_step mm x)
      = history (foldl manager_step mm (map AddMessage [\<lparr>role = ''system'', content = ?c\<rparr>]))"
    by (cases "res_action r") (simp_all add: addActionResultMessage_def Let_def addActionToHistory_def)
  then show ?thesis by (rule additions_I [rotated]) simp
next
  case (AddNavigation u)
  then have "history (manager_step mm x)
      = history (foldl manager_step mm (map AddMessage
           [\<lparr>role = ''system'', content = ''Page navigation occurred. New URL: '' @ u\<rparr>]))"
    by (simp add: addNavigationMessage_def)
  then show ?thesis by (rule additions_I [rotated]) simp
qed


lemma addMessage_maxTokens [simp]: "maxTokens (MessageManager_addMessage m mm) = maxTokens mm"
  by (simp add: MessageManager_addMessage_def)

lemma manager_step_maxTokens: "maxTokens (manager_step mm x) = maxTokens mm"
  by (cases x)
     (simp_all add: addSystemMessage_def addTaskMessage_def addStateMessage_def Let_def
        addActionResultMessage_def addActionToHistory_def addNavigationMessage_def
        split: option.splits)

lemma foldl_maxTokens: "maxTokens (foldl manager_step mm ops) = maxTokens mm"
  by (induction ops arbitrary: mm) (simp_all add: manager_step_maxTokens)

lemma run_manager_maxTokens:
  "maxTokens (run_manager t opt ops) = (case opt of None \<Rightarrow> 8000 | Some n \<Rightarrow> if n = 0 then 8000 else n)"
  unfolding run_manager_def foldl_maxTokens
  by (simp add: MessageManager_new_def addTaskMessage_def addSystemMessage_def)

lemma run_manager_snoc: "run_manager t opt (ops @ [x]) = manager_step (run_manager t opt ops) x"
  by (simp add: run_manager_def)

lemma run_manager_append:
  "run_manager t opt (ops @ ops2) = foldl manager_step (run_manager t opt ops) ops2"
  by (simp add: run_manager_def)

text \<open>
  Claim C1, as the code has it.  Eviction is by role, not by position.  The constructor stores
  the system instruction first and the task statement (role \<open>user\<close>) second, so the task
  statement is the oldest evictable entry.  Every addition appends the new entry and then
  removes the \<open>k\<close> oldest entries whose role is not \<open>system\<close>, oldest first, where \<open>k\<close> is
  the least number that brings the summed estimate within the budget, or the number of all
  such entries when no number does: before each of the \<open>k\<close> removals the total exceeded the
  budget, and afterwards it is within the budget or nothing evictable remains.  Every other
  operation of the manager is one or two such additions.  Hence after the constructor and any
  sequence of operations the system instruction is still the first entry, the estimated total
  is within the budget unless every remaining entry has role \<open>system\<close>, and no entry of role
  \<open>system\<close> is ever removed.  The budget is \<^verbatim>\<open>options.maxTokens || 8000\<close> throughout.
\<close>

theorem context_budget_by_role:
  "getMessages (run_manager t opt ops) \<noteq> []
   \<and> hd (getMessages (run_manager t opt ops)) = system_message
   \<and> (getTotalTokens (history (run_manager t opt ops)) \<le> maxTokens (run_manager t opt ops)
      \<or> list_all is_system (getMessages (run_manager t opt ops)))
   \<and> (\<exists>later. system_entries (history (run_manager t opt (ops @ ops2)))
                 = system_entries (history (run_manager t opt ops)) @ later)
   \<and> maxTokens (run_manager t opt ops)
       = (case opt of None \<Rightarrow> 8000 | Some n \<Rightarrow> if n = 0 then 8000 else n)
   \<and> messages (history (run_manager t opt []))
       = (if estimateTokens systemContent + estimateTokens (content (task_message t))
               \<le> maxTokens (run_manager t opt [])
          then [entry_of system_message, entry_of (task_message t)]
          else [entry_of system_message])
   \<and> (\<exists>k. messages (history (run_manager t opt (ops @ [AddMessage m])))
             = drop_oldest k (messages (history (run_manager t opt ops)) @ [entry_of m])
         \<and> (\<forall>j<k. cost (drop_oldest j (messages (history (run_manager t opt ops)) @ [entry_of m]))
                     > maxTokens (run_manager t opt ops))
         \<and> (cost (drop_oldest k (messages (history (run_manager t opt ops)) @ [entry_of m]))
               \<le> maxTokens (run_manager t opt ops)
            \<or> evictable (drop_oldest k (messages (history (run_manager t opt ops)) @ [entry_of m]))
                = [])
         \<and> getTotalTokens (history (run_manager t opt (ops @ [AddMessage m])))
             = cost (drop_oldest k (messages (history (run_manager t opt ops)) @ [entry_of m])))
   \<and> (\<exists>ms. length ms \<le> 2
          \<and> history (run_manager t opt (ops @ [x]))
              = history (run_manager t opt (ops @ map AddMessage ms)))"
proof -
  let ?mm = "run_manager t opt ops"
  have inv: "manager_inv ?mm"
    unfolding run_manager_def by (rule foldl_manager_inv) (rule MessageManager_new_inv)
  have c4: "\<exists>later. system_entries (history (run_manager t opt (ops @ ops2)))
                 = system_entries (history ?mm) @ later"
    unfolding run_manager_def foldl_append by (rule foldl_system_entries)
  have c5: "maxTokens ?mm = (case opt of None \<Rightarrow> 8000 | Some n \<Rightarrow> if n = 0 then 8000 else n)"
    by (rule run_manager_maxTokens)
  have c6: "messages (history (run_manager t opt []))
       = (if estimateTokens systemContent + estimateTokens (content (task_message t))
               \<le> maxTokens (run_manager t opt [])
          then [entry_of system_message, entry_of (task_message t)]
          else [entry_of system_message])"
    unfolding run_manager_def foldl_Nil by (rule MessageManager_new_messages)
  from addMessage_drop_oldest [OF inv, of m] obtain k where
    k1: "messages (history (MessageManager_addMessage m ?mm))
           = drop_oldest k (messages (history ?mm) @ [entry_of m])"
    and k2: "\<forall>j<k. cost (drop_oldest j (messages (history ?mm) @ [entry_of m])) > maxTokens ?mm"
    and k3: "cost (drop_oldest k (messages (history ?mm) @ [entry_of m])) \<le> maxTokens ?mm
             \<or> evictable (drop_oldest k (messages (history ?mm) @ [entry_of m])) = []"
    by blast
  have k4: "getTotalTokens (history (MessageManager_addMessage m ?mm))
              = cost (drop_oldest k (messages (history ?mm) @ [entry_of m]))"
    using addMessage_total [OF inv, of m] unfolding k1 .
  have s: "run_manager t opt (ops @ [AddMessage m]) = MessageManager_addMessage m ?mm"
    unfolding run_manager_snoc by simp
  have c7: "\<exists>k. messages (history (run_manager t opt (ops @ [AddMessage m])))
             = drop_oldest k (messages (history ?mm) @ [entry_of m])
         \<and> (\<forall>j<k. cost (drop_oldest j (messages (history ?mm) @ [entry_of m])) > maxTokens ?mm)
         \<and> (cost (drop_oldest k (messages (history ?mm) @ [entry_of m])) \<le> maxTokens ?mm
            \<or> evictable (drop_oldest k (messages (history ?mm) @ [entry_of m])) = [])
         \<and> getTotalTokens (history (run_manager t opt (ops @ [AddMessage m])))
             = cost (drop_oldest k (messages (history ?mm) @ [entry_of m]))"
    unfolding s using k1 k2 k3 k4 by blast
  have c8: "\<exists>ms. length ms \<le> 2
          \<and> history (run_manager t opt (ops @ [x]))
              = history (run_manager t opt (ops @ map AddMessage ms))"
    unfolding run_manager_append using step_as_additions [of "run_manager t opt ops" x] by simp
  from inv c4 c5 c6 c7 c8 show ?thesis unfolding manager_inv_def by blast
qed


lemma estimateTokens_systemContent: "estimateTokens systemContent = 395"
  by (simp add: estimateTokens_def systemContent_def)

lemma estimateTokens_task_t: "estimateTokens (content (task_message ''t'')) = 5"
  by (simp add: estimateTokens_def task_message_def)

lemma estimateTokens_big_state:
  "task mm = ''t'' \<Longrightarrow> estimateTokens (formatStateMessage mm big_state) = 7605"
  by (simp add: estimateTokens_def formatStateMessage_def big_state_def)

lemma role_task_message: "role (task_message t) = ''user''"
  by (simp add: task_message_def)

lemma MessageManager_new_t:
  "MessageManager_new ''t'' None =
     \<lparr>task = ''t'',
      history = \<lparr>messages = [\<lparr>msg = system_message, metadata = \<lparr>tokens = 395\<rparr>\<rparr>,
                             \<lparr>msg = task_message ''t'', metadata = \<lparr>tokens = 5\<rparr>\<rparr>],
                 currentTokens = 400\<rparr>,
      maxTokens = 8000, actionHistory = []\<rparr>"
proof -
  have c: "content system_message = systemContent" "role system_message = ''system''"
    by (simp_all add: system_message_def)
  show ?thesis
    by (simp add: MessageManager_new_def addTaskMessage_def addSystemMessage_def
        MessageManager_addMessage_def MessageHistory_addMessage_def MessageHistory_new_def
        trim_while.simps getTotalTokens_def c estimateTokens_systemContent estimateTokens_task_t)
qed

lemma estimateTokens_big_message: "estimateTokens (content big_message) = 7605"
  unfolding big_message_def message.simps
  by (rule estimateTokens_big_state) (simp add: MessageManager_new_t)

lemma example_entries:
  "entry_of system_message = \<lparr>msg = system_message, metadata = \<lparr>tokens = 395\<rparr>\<rparr>"
  "entry_of (task_message ''t'') = \<lparr>msg = task_message ''t'', metadata = \<lparr>tokens = 5\<rparr>\<rparr>"
  "entry_of big_message = \<lparr>msg = big_message, metadata = \<lparr>tokens = 7605\<rparr>\<rparr>"
  by (simp_all add: entry_of_def estimateTokens_systemContent estimateTokens_task_t
        estimateTokens_big_message system_message_def)

lemma example_roles:
  "is_system system_message" "\<not> is_system (task_message ''t'')" "\<not> is_system big_message"
  by (simp_all add: is_system_def system_message_def task_message_def big_message_def)

text \<open>
  Claim C1 as stated fails: with the default budget of 8000, one observation whose rendering
  costs 7605 tokens pushes the total to 8005; the loop evicts the oldest non-system entry, which
  is the task statement, and stops at 8000.  The task entry is gone while the observation stays.
\<close>

theorem task_entry_evicted:
  "getMessages (run_manager ''t'' None [AddState big_state])
     = [system_message,
        \<lparr>role = ''user'', content = formatStateMessage (MessageManager_new ''t'' None) big_state\<rparr>]
   \<and> task_message ''t'' \<notin> set (getMessages (run_manager ''t'' None [AddState big_state]))"
proof -
  have r: "role system_message = ''system''" by (simp add: system_message_def)
  have e: "estimateTokens (formatStateMessage (MessageManager_new ''t'' None) big_state) = 7605"
    by (rule estimateTokens_big_state) (simp add: MessageManager_new_t)
  have m: "getMessages (run_manager ''t'' None [AddState big_state])
     = [system_message,
        \<lparr>role = ''user'', content = formatStateMessage (MessageManager_new ''t'' None) big_state\<rparr>]"
    using e unfolding run_manager_def MessageManager_new_t
    by (simp add: addStateMessage_def generateActionSummary_def MessageManager_addMessage_def
          MessageHistory_addMessage_def trim_while.simps trimIfNeeded_def getTotalTokens_def
          r role_task_message splice1_def getMessages_def MessageHistory_getMessages_def)
  have "task_message ''t'' \<noteq> system_message"
    by (simp add: task_message_def system_message_def)
  moreover have "task_message ''t'' \<noteq>
      \<lparr>role = ''user'', content = formatStateMessage (MessageManager_new ''t'' None) big_state\<rparr>"
    by (simp add: task_message_def formatStateMessage_def)
  ultimately show ?thesis using m by simp
qed

theorem context_budget_by_role_witness:
  "messages (history (run_manager ''t'' None []))
     = [entry_of system_message, entry_of (task_message ''t'')]
   \<and> maxTokens (run_manager ''t'' None []) = 8000
   \<and> cost [entry_of system_message, entry_of (task_message ''t''), entry_of big_message] = 8005
   \<and> messages (history (run_manager ''t'' None [AddMessage big_message]))
       = [entry_of system_message, entry_of big_message]
   \<and> getTotalTokens (history (run_manager ''t'' None [AddMessage big_message])) = 8000
   \<and> hd (getMessages (run_manager ''t'' None [AddMessage big_message])) = system_message"
proof -
  let ?es = "[entry_of system_message, entry_of (task_message ''t''), entry_of big_message]"
  note th = context_budget_by_role [of "''t''" None "[]" "[]" big_message "AddMessage big_message"]
  from th have mx: "maxTokens (run_manager ''t'' None []) = 8000" by simp
  from th have "messages (history (run_manager ''t'' None []))
       = (if estimateTokens systemContent + estimateTokens (content (task_message ''t''))
               \<le> maxTokens (run_manager ''t'' None [])
          then [entry_of system_message, entry_of (task_message ''t'')]
          else [entry_of system_message])"
    by blast
  then have m0: "messages (history (run_manager ''t'' None []))
     = [entry_of system_message, entry_of (task_message ''t'')]"
    unfolding mx by (simp add: estimateTokens_systemContent estimateTokens_task_t)
  from th obtain k where
    k1: "messages (history (run_manager ''t'' None ([] @ [AddMessage big_message])))
           = drop_oldest k (messages (history (run_manager ''t'' None [])) @ [entry_of big_message])"
    and k2: "\<forall>j<k. cost (drop_oldest j (messages (history (run_manager ''t'' None []))
                                            @ [entry_of big_message]))
                     > maxTokens (run_manager ''t'' None [])"
    and k3: "cost (drop_oldest k (messages (history (run_manager ''t'' None []))
                                   @ [entry_of big_message]))
               \<le> maxTokens (run_manager ''t'' None [])
             \<or> evictable (drop_oldest k (messages (history (run_manager ''t'' None []))
                                   @ [entry_of big_message])) = []"
    and k4: "getTotalTokens (history (run_manager ''t'' None ([] @ [AddMessage big_message])))
               = cost (drop_oldest k (messages (history (run_manager ''t'' None []))
                                   @ [entry_of big_message]))"
    by blast
  have es: "messages (history (run_manager ''t'' None [])) @ [entry_of big_message] = ?es"
    unfolding m0 by simp
  note k1 = k1 [unfolded es]
  note k2 = k2 [unfolded es mx]
  note k3 = k3 [unfolded es mx]
  note k4 = k4 [unfolded es]
  have c0: "cost ?es = 8005" by (simp add: cost_def example_entries)
  have e0: "evictable ?es \<noteq> []" by (simp add: evictable_def example_entries example_roles)
  have d1: "drop_oldest (Suc 0) ?es = [entry_of system_message, entry_of big_message]"
    by (simp add: example_entries example_roles)
  have c1: "cost (drop_oldest (Suc 0) ?es) = 8000"
    unfolding d1 by (simp add: cost_def example_entries)
  have "k \<noteq> 0"
  proof
    assume "k = 0"
    with k3 have "cost ?es \<le> 8000 \<or> evictable ?es = []" by simp
    with c0 e0 show False by simp
  qed
  moreover have "\<not> Suc 0 < k"
  proof
    assume "Suc 0 < k"
    with k2 have "cost (drop_oldest (Suc 0) ?es) > 8000" by blast
    with c1 show False by simp
  qed
  ultimately have k: "k = Suc 0" by arith
  have m1: "messages (history (run_manager ''t'' None [AddMessage big_message]))
       = [entry_of system_message, entry_of big_message]"
    using k1 unfolding k d1 by simp
  have t1: "getTotalTokens (history (run_manager ''t'' None [AddMessage big_message])) = 8000"
    using k4 unfolding k c1 by simp
  have h1: "hd (getMessages (run_manager ''t'' None [AddMessage big_message])) = system_message"
    using m1 by (simp add: getMessages_def MessageHistory_getMessages_def entry_of_def)
  from m0 mx c0 m1 t1 h1 show ?thesis by blast
qed

section \<open>Document model builder (extension/domBuilder.js)\<close>

subsection \<open>The document as the builder reads it\<close>

text \<open>
  The builder reads the live document through browser calls.  Each element of the model carries
  what those calls return for it: its identity (\<open>nid\<close>, compared by \<^verbatim>\<open>===\<close>), \<^verbatim>\<open>id\<close>,
  \<^verbatim>\<open>tagName\<close>, the attribute list, \<^verbatim>\<open>offsetWidth\<close>/\<^verbatim>\<open>offsetHeight\<close>, the computed
  style, the bounding client rectangle, the kind of \<^verbatim>\<open>getRootNode()\<close>, the truthiness of the
  \<^verbatim>\<open>onclick\<close> property and the \<^verbatim>\<open>draggable\<close> property.  Lengths are reals.
\<close>

record rect =
  r_left :: real
  r_top :: real
  r_width :: real
  r_height :: real

definition r_right :: "rect \<Rightarrow> real" where
  "r_right r = r_left r + r_width r"

definition r_bottom :: "rect \<Rightarrow> real" where
  "r_bottom r = r_top r + r_height r"

record style =
  visibility :: string
  display :: string
  opacity :: string
  cursor :: string

datatype root_kind = DocumentRoot | ShadowRootOf nat

record element =
  nid :: nat
  el_id :: string
  tagName :: string
  attributes :: "(string \<times> string) list"
  offsetWidth :: int
  offsetHeight :: int
  computedStyle :: style
  boundingRect :: rect
  rootNode :: root_kind
  onclick :: bool
  draggable :: bool
  xpathTree :: string

text \<open>A text node: its content, the rectangle of a range around it, and its parent element
  (\<^verbatim>\<open>checkVisibility\<close> may be missing, which raises and takes the style fallback).\<close>

record text_parent =
  checkVisibility :: "bool option"
  parentStyle :: style

record text_node =
  textContent :: string
  rangeRect :: rect
  parentElement :: "text_parent option"

text \<open>What an \<^verbatim>\<open>iframe\<close> gives on access: an exception, no document, or a document whose body
  may be null.\<close>

datatype 'a frame_doc = FrameBlocked | FrameNoDocument | FrameDocument "'a option"

datatype node =
    TextNode text_node
  | ElementNode element "node list" "node list option" "node frame_doc"
  | OtherNode

text \<open>The window and document: viewport size, the root element, \<^verbatim>\<open>document.body\<close>, and hit
  testing.  \<open>elementFromPoint root x y\<close> is the element \<^verbatim>\<open>root.elementFromPoint(x, y)\<close> returns,
  given by its identity followed by its \<^verbatim>\<open>parentElement\<close> chain; the empty list is \<^verbatim>\<open>null\<close>.\<close>

record document =
  innerWidth :: real
  innerHeight :: real
  documentElement :: nat
  body :: "node option"
  elementFromPoint :: "root_kind \<Rightarrow> real \<Rightarrow> real \<Rightarrow> nat list"

record options =
  highlightElements :: bool
  focusHighlightIndex :: int
  viewportExpansion :: real
  debugMode :: bool

text \<open>The builder object: its options, the index counter, the selector map, and the overlays
  drawn in the highlight container (element identity and index).\<close>

record DOMBuilder =
  opts :: options
  highlightIndex :: nat
  selectorMap :: "nat \<rightharpoonup> element"
  overlays :: "(nat \<times> nat) list"

record nodeData =
  nd_tagName :: string
  nd_attributes :: "(string \<times> string) list"
  nd_xpath :: string
  isVisible :: bool
  isInteractive :: bool
  isTopElement_flag :: bool
  isInViewport :: bool
  highlight_index :: "nat option"
  shadowRoot :: bool

datatype tree = TextOut string | NodeOut nodeData "tree list"

definition default_options :: options where
  "default_options =
     \<lparr>highlightElements = True, focusHighlightIndex = -1, viewportExpansion = 300, debugMode = False\<rparr>"

definition DOMBuilder_new :: "options \<Rightarrow> DOMBuilder" where
  "DOMBuilder_new os = \<lparr>opts = os, highlightIndex = 0, selectorMap = Map.empty, overlays = []\<rparr>"

definition HIGHLIGHT_CONTAINER_ID :: string where
  "HIGHLIGHT_CONTAINER_ID = ''agent-highlight-container''"

subsection \<open>String helpers\<close>

definition lower_char :: "char \<Rightarrow> char" where
  "lower_char c =
     (case map_of (zip ''ABCDEFGHIJKLMNOPQRSTUVWXYZ'' ''abcdefghijklmnopqrstuvwxyz'') c of
        Some l \<Rightarrow> l | None \<Rightarrow> c)"

definition upper_char :: "char \<Rightarrow> char" where
  "upper_char c =
     (case map_of (zip ''abcdefghijklmnopqrstuvwxyz'' ''ABCDEFGHIJKLMNOPQRSTUVWXYZ'') c of
        Some u \<Rightarrow> u | None \<Rightarrow> c)"

definition toLowerCase :: "string \<Rightarrow> string" where
  "toLowerCase s = map lower_char s"

definition toUpperCase :: "string \<Rightarrow> string" where
  "toUpperCase s = map upper_char s"

definition is_space :: "char \<Rightarrow> bool" where
  "is_space c \<longleftrightarrow> c \<in> set [CHR 0x20, CHR 0x09, CHR 0x0A, CHR 0x0B, CHR 0x0C, CHR 0x0D]"

definition trim :: "string \<Rightarrow> string" where
  "trim s = rev (dropWhile is_space (rev (dropWhile is_space s)))"

definition getAttribute :: "element \<Rightarrow> string \<Rightarrow> string option" where
  "getAttribute e n = map_of (attributes e) n"

definition hasAttribute :: "element \<Rightarrow> string \<Rightarrow> bool" where
  "hasAttribute e n \<longleftrightarrow> getAttribute e n \<noteq> None"

subsection \<open>The checks\<close>

definition isElementAccepted :: "element \<Rightarrow> bool" where
  "isElementAccepted e \<longleftrightarrow>
     tagName e \<noteq> [] \<and>
     toLowerCase (tagName e) \<notin> set [''svg'', ''script'', ''style'', ''link'', ''meta'', ''noscript'', ''template'']"

definition style_visible :: "style \<Rightarrow> bool" where
  "style_visible s \<longleftrightarrow> visibility s \<noteq> ''hidden'' \<and> display s \<noteq> ''none'' \<and> opacity s \<noteq> ''0''"

definition isElementVisible :: "element \<Rightarrow> bool" where
  "isElementVisible e \<longleftrightarrow>
     offsetWidth e > 0 \<and> offsetHeight e > 0 \<and> style_visible (computedStyle e)"

definition rectInExpandedViewport :: "document \<Rightarrow> rect \<Rightarrow> real \<Rightarrow> bool" where
  "rectInExpandedViewport d r ve \<longleftrightarrow>
     (if ve = -1 then True
      else \<not> (r_bottom r < - ve \<or> r_top r > innerHeight d + ve
              \<or> r_right r < - ve \<or> r_left r > innerWidth d + ve))"

definition isInExpandedViewport :: "document \<Rightarrow> element \<Rightarrow> real \<Rightarrow> bool" where
  "isInExpandedViewport d e ve = rectInExpandedViewport d (boundingRect e) ve"

definition centerX :: "rect \<Rightarrow> real" where
  "centerX r = r_left r + r_width r / 2"

definition centerY :: "rect \<Rightarrow> real" where
  "centerY r = r_top r + r_height r / 2"

text \<open>The two loops of \<^verbatim>\<open>_isTopElement\<close> walk the \<^verbatim>\<open>parentElement\<close> chain of the hit
  element: in a shadow tree to its end (a shadow root is never a \<^verbatim>\<open>parentElement\<close>), in the
  document up to, and without, the root element.\<close>

definition isTopElement :: "document \<Rightarrow> element \<Rightarrow> bool" where
  "isTopElement d e =
     (let cx = centerX (boundingRect e); cy = centerY (boundingRect e)
      in case rootNode e of
           ShadowRootOf h \<Rightarrow> nid e \<in> set (elementFromPoint d (ShadowRootOf h) cx cy)
         | DocumentRoot \<Rightarrow>
             nid e \<in> set (takeWhile (\<lambda>c. c \<noteq> documentElement d)
                                    (elementFromPoint d DocumentRoot cx cy)))"

definition interactiveElements_tags :: "string list" where
  "interactiveElements_tags =
     [''a'', ''button'', ''details'', ''embed'', ''input'', ''label'', ''menu'', ''menuitem'',
      ''object'', ''select'', ''textarea'', ''summary'']"

definition interactiveRoles :: "string list" where
  "interactiveRoles =
     [''button'', ''menu'', ''menuitem'', ''link'', ''checkbox'', ''radio'', ''slider'', ''tab'',
      ''tabpanel'', ''textbox'', ''combobox'', ''grid'', ''listbox'', ''option'', ''progressbar'',
      ''scrollbar'', ''searchbox'', ''switch'', ''tree'', ''treeitem'', ''spinbutton'', ''tooltip'']"

definition isInteractiveElement :: "element \<Rightarrow> bool" where
  "isInteractiveElement e \<longleftrightarrow>
     toLowerCase (tagName e) \<in> set interactiveElements_tags
     \<or> (case getAttribute e ''role'' of None \<Rightarrow> False
         | Some r \<Rightarrow> toLowerCase r \<noteq> [] \<and> toLowerCase r \<in> set interactiveRoles)
     \<or> (getAttribute e ''tabindex'' \<noteq> None \<and> getAttribute e ''tabindex'' \<noteq> Some ''-1'')
     \<or> cursor (computedStyle e) = ''pointer''
     \<or> onclick e
     \<or> (case getAttribute e ''onclick'' of None \<Rightarrow> False | Some v \<Rightarrow> v \<noteq> [])
     \<or> hasAttribute e ''ng-click''
     \<or> hasAttribute e ''@click''
     \<or> hasAttribute e ''v-on:click''
     \<or> hasAttribute e ''aria-expanded''
     \<or> hasAttribute e ''aria-pressed''
     \<or> hasAttribute e ''aria-selected''
     \<or> hasAttribute e ''aria-checked''
     \<or> draggable e
     \<or> getAttribute e ''draggable'' = Some ''true''"

definition isTextNodeVisible :: "document \<Rightarrow> DOMBuilder \<Rightarrow> text_node \<Rightarrow> bool" where
  "isTextNodeVisible d b t =
     (if r_width (rangeRect t) = 0 \<or> r_height (rangeRect t) = 0 then False
      else let inViewport = rectInExpandedViewport d (rangeRect t) (viewportExpansion (opts b))
           in case parentElement t of
                None \<Rightarrow> False
              | Some p \<Rightarrow>
                  (if \<not> inViewport then False
                   else case checkVisibility p of
                          Some v \<Rightarrow> v
                        | None \<Rightarrow> style_visible (parentStyle p)))"

subsection \<open>The traversal\<close>

definition highlightElement :: "element \<Rightarrow> nat \<Rightarrow> DOMBuilder \<Rightarrow> DOMBuilder" where
  "highlightElement e i b = b\<lparr>overlays := overlays b @ [(nid e, i)]\<rparr>"

definition removeHighlights :: "DOMBuilder \<Rightarrow> DOMBuilder" where
  "removeHighlights b = b\<lparr>overlays := []\<rparr>"

definition is_body :: "document \<Rightarrow> element \<Rightarrow> bool" where
  "is_body d e = (case body d of Some (ElementNode b _ _ _) \<Rightarrow> nid b = nid e | _ \<Rightarrow> False)"

text \<open>The last block of \<^verbatim>\<open>_buildDomTree\<close>, run after the children: the three nested checks,
  the index assignment, the optional overlay and the increment.\<close>

definition evaluate_node :: "document \<Rightarrow> element \<Rightarrow> nodeData \<Rightarrow> DOMBuilder \<Rightarrow> nodeData \<times> DOMBuilder" where
  "evaluate_node d e nd b =
     (if isInExpandedViewport d e (viewportExpansion (opts b)) then
        (if isTopElement d e then
           (if isInteractiveElement e then
              (let i = highlightIndex b;
                   b1 = b\<lparr>selectorMap := (selectorMap b)(i \<mapsto> e)\<rparr>;
                   b2 = (if highlightElements (opts b1) then
                           (if focusHighlightIndex (opts b1) \<ge> 0 then
                              (if focusHighlightIndex (opts b1) = int i then highlightElement e i b1
                               else b1)
                            else highlightElement e i b1)
                         else b1)
               in (nd\<lparr>isInViewport := True, isTopElement_flag := True, isInteractive := True,
                       highlight_index := Some i\<rparr>,
                   b2\<lparr>highlightIndex := i + 1\<rparr>))
            else (nd\<lparr>isInViewport := True, isTopElement_flag := True\<rparr>, b))
         else (nd\<lparr>isInViewport := True\<rparr>, b))
      else (nd, b))"

definition initial_nodeData :: "element \<Rightarrow> nodeData" where
  "initial_nodeData e =
     \<lparr>nd_tagName = toLowerCase (tagName e), nd_attributes = attributes e, nd_xpath = xpathTree e,
      isVisible = True, isInteractive = False, isTopElement_flag = False, isInViewport = False,
      highlight_index = None, shadowRoot = False\<rparr>"

fun buildDomTree :: "document \<Rightarrow> node \<Rightarrow> DOMBuilder \<Rightarrow> tree option \<times> DOMBuilder"
  and buildChildren :: "document \<Rightarrow> node list \<Rightarrow> DOMBuilder \<Rightarrow> tree list \<times> DOMBuilder"
where
  "buildDomTree d OtherNode b = (None, b)"
| "buildDomTree d (TextNode t) b =
     (let s = trim (textContent t)
      in if s = [] \<or> \<not> isTextNodeVisible d b t then (None, b) else (Some (TextOut s), b))"
| "buildDomTree d (ElementNode e cs sh fr) b =
     (if el_id e = HIGHLIGHT_CONTAINER_ID then (None, b)
      else if \<not> isElementAccepted e then (None, b)
      else if \<not> is_body d e \<and> \<not> isElementVisible e then (None, b)
      else
        (case buildChildren d cs b of (kids1, b1) \<Rightarrow>
        (case (case sh of None \<Rightarrow> ([], b1) | Some scs \<Rightarrow> buildChildren d scs b1) of (kids2, b2) \<Rightarrow>
        (case (if toUpperCase (tagName e) = ''IFRAME''
               then (case fr of
                       FrameDocument (Some fb) \<Rightarrow>
                         (case buildDomTree d fb b2 of
                            (Some t, b3) \<Rightarrow> ([t], b3)
                          | (None, b3) \<Rightarrow> ([], b3))
                     | _ \<Rightarrow> ([], b2))
               else ([], b2)) of (kids3, b3) \<Rightarrow>
        (case evaluate_node d e ((initial_nodeData e)\<lparr>shadowRoot := (sh \<noteq> None)\<rparr>) b3 of
           (nd, b4) \<Rightarrow> (Some (NodeOut nd (kids1 @ kids2 @ kids3)), b4))))))"
| "buildChildren d [] b = ([], b)"
| "buildChildren d (c # cs) b =
     (case buildDomTree d c b of
        (r, b1) \<Rightarrow>
          (case buildChildren d cs b1 of
             (rs, b2) \<Rightarrow> ((case r of None \<Rightarrow> rs | Some t \<Rightarrow> t # rs), b2)))"

text \<open>\<^verbatim>\<open>build()\<close>: reset the counter and the map, remove the old overlays, walk from
  \<^verbatim>\<open>document.body\<close> (a null body gives no tree).\<close>

definition build :: "document \<Rightarrow> DOMBuilder \<Rightarrow> tree option \<times> DOMBuilder" where
  "build d b =
     (let b0 = removeHighlights (b\<lparr>highlightIndex := 0, selectorMap := Map.empty\<rparr>)
      in case body d of None \<Rightarrow> (None, b0) | Some n \<Rightarrow> buildDomTree d n b0)"

subsection \<open>The order of assignment\<close>

text \<open>An element is reached when the traversal does not stop at it; it qualifies when it passes
  the three nested checks.\<close>

definition reached :: "document \<Rightarrow> element \<Rightarrow> bool" where
  "reached d e \<longleftrightarrow>
     el_id e \<noteq> HIGHLIGHT_CONTAINER_ID \<and> isElementAccepted e \<and> (is_body d e \<or> isElementVisible e)"

definition qualifies :: "document \<Rightarrow> real \<Rightarrow> element \<Rightarrow> bool" where
  "qualifies d ve e \<longleftrightarrow>
     isInExpandedViewport d e ve \<and> isTopElement d e \<and> isInteractiveElement e"

text \<open>The qualifying elements in post-order: those of the children, of the shadow tree and of
  the sub-document first, the element itself last.  Nothing below an element that is not
  reached is listed.\<close>

fun postorder :: "document \<Rightarrow> real \<Rightarrow> node \<Rightarrow> element list"
  and postorder_list :: "document \<Rightarrow> real \<Rightarrow> node list \<Rightarrow> element list"
where
  "postorder d ve OtherNode = []"
| "postorder d ve (TextNode t) = []"
| "postorder d ve (ElementNode e cs sh fr) =
     (if \<not> reached d e then []
      else postorder_list d ve cs
         @ (case sh of None \<Rightarrow> [] | Some scs \<Rightarrow> postorder_list d ve scs)
         @ (if toUpperCase (tagName e) = ''IFRAME''
            then (case fr of FrameDocument (Some fb) \<Rightarrow> postorder d ve fb | _ \<Rightarrow> [])
            else [])
         @ (if qualifies d ve e then [e] else []))"
| "postorder_list d ve [] = []"
| "postorder_list d ve (c # cs) = postorder d ve c @ postorder_list d ve cs"

definition snapshot_order :: "document \<Rightarrow> DOMBuilder \<Rightarrow> element list" where
  "snapshot_order d b =
     (case body d of None \<Rightarrow> [] | Some n \<Rightarrow> postorder d (viewportExpansion (opts b)) n)"

text \<open>What the assignment block does to the builder for one qualifying element.\<close>

definition assign_index :: "DOMBuilder \<Rightarrow> element \<Rightarrow> DOMBuilder" where
  "assign_index b e =
     (let i = highlightIndex b;
          b1 = b\<lparr>selectorMap := (selectorMap b)(i \<mapsto> e)\<rparr>;
          b2 = (if highlightElements (opts b1) \<and>
                   (focusHighlightIndex (opts b1) < 0 \<or> focusHighlightIndex (opts b1) = int i)
                then highlightElement e i b1 else b1)
      in b2\<lparr>highlightIndex := i + 1\<rparr>)"

subsection \<open>Example documents\<close>

definition plain_style :: style where
  "plain_style = \<lparr>visibility = ''visible'', display = ''block'', opacity = ''1'', cursor = ''auto''\<rparr>"

definition plain_element :: "nat \<Rightarrow> string \<Rightarrow> rect \<Rightarrow> element" where
  "plain_element i tg r =
     \<lparr>nid = i, el_id = '''', tagName = tg, attributes = [], offsetWidth = \<lfloor>r_width r\<rfloor>,
      offsetHeight = \<lfloor>r_height r\<rfloor>, computedStyle = plain_style, boundingRect = r,
      rootNode = DocumentRoot, onclick = False, draggable = False, xpathTree = ''''\<rparr>"

text \<open>Hit testing in the examples answers \<^verbatim>\<open>null\<close> outside the viewport, as
  \<^verbatim>\<open>elementFromPoint\<close> does for a negative coordinate or one beyond the viewport's width or
  height, and a fixed chain inside it.\<close>

definition in_viewport_hit :: "real \<Rightarrow> real \<Rightarrow> nat list \<Rightarrow> root_kind \<Rightarrow> real \<Rightarrow> real \<Rightarrow> nat list" where
  "in_viewport_hit w h chain rk x y = (if x < 0 \<or> y < 0 \<or> x > w \<or> y > h then [] else chain)"

definition span_el :: element where
  "span_el = (plain_element 3 ''SPAN'' \<lparr>r_left = 0, r_top = 0, r_width = 100, r_height = 20\<rparr>)
                \<lparr>computedStyle := plain_style\<lparr>cursor := ''pointer''\<rparr>\<rparr>"

definition a_el :: element where
  "a_el = (plain_element 2 ''A'' \<lparr>r_left = 0, r_top = 0, r_width = 100, r_height = 20\<rparr>)
                \<lparr>computedStyle := plain_style\<lparr>cursor := ''pointer''\<rparr>\<rparr>"

definition page_body :: element where
  "page_body = plain_element 1 ''BODY'' \<lparr>r_left = 0, r_top = 0, r_width = 1024, r_height = 2000\<rparr>"

definition nested_doc :: document where
  "nested_doc =
     \<lparr>innerWidth = 1024, innerHeight = 768, documentElement = 0,
      body = Some (ElementNode page_body
                     [ElementNode a_el [ElementNode span_el [] None FrameNoDocument] None FrameNoDocument]
                     None FrameNoDocument),
      elementFromPoint = in_viewport_hit 1024 768 [3, 2, 1, 0]\<rparr>"

text \<open>A page whose body has no height of its own (its content is positioned out of flow), with
  a click handler attribute on the body and a full-viewport panel inside it.\<close>

definition zero_body :: element where
  "zero_body = (plain_element 1 ''BODY'' \<lparr>r_left = 0, r_top = 0, r_width = 1024, r_height = 0\<rparr>)
                  \<lparr>attributes := [(''onclick'', ''track()'')]\<rparr>"

definition panel_el :: element where
  "panel_el = plain_element 2 ''DIV'' \<lparr>r_left = 0, r_top = 0, r_width = 1024, r_height = 768\<rparr>"

definition overlay_doc :: document where
  "overlay_doc =
     \<lparr>innerWidth = 1024, innerHeight = 768, documentElement = 0,
      body = Some (ElementNode zero_body [ElementNode panel_el [] None FrameNoDocument]
                     None FrameNoDocument),
      elementFromPoint = in_viewport_hit 1024 768 [2, 1, 0]\<rparr>"

text \<open>A page scrolled to the top, with a button 200 pixels below the bottom edge of the
  viewport; inside the viewport only the body is hit.\<close>

definition below_button :: element where
  "below_button = plain_element 2 ''BUTTON'' \<lparr>r_left = 100, r_top = 968, r_width = 80, r_height = 30\<rparr>"

definition scrolled_doc :: document where
  "scrolled_doc =
     \<lparr>innerWidth = 1024, innerHeight = 768, documentElement = 0,
      body = Some (ElementNode page_body [ElementNode below_button [] None FrameNoDocument]
                     None FrameNoDocument),
      elementFromPoint = in_viewport_hit 1024 768 [1, 0]\<rparr>"

definition whole_document_options :: options where
  "whole_document_options = default_options\<lparr>viewportExpansion := -1\<rparr>"

subsection \<open>Properties of the traversal\<close>

lemma snd_evaluate_node:
  "snd (evaluate_node d e nd b) =
     (if qualifies d (viewportExpansion (opts b)) e then assign_index b e else b)"
  by (auto simp: evaluate_node_def qualifies_def assign_index_def Let_def)

lemma opts_assign_index [simp]: "opts (assign_index b e) = opts b"
  by (simp add: assign_index_def Let_def highlightElement_def)

lemma opts_foldl_assign [simp]: "opts (foldl assign_index b es) = opts b"
  by (induction es arbitrary: b) simp_all

lemma buildDomTree_as_fold:
  "snd (buildDomTree d n b) = foldl assign_index b (postorder d (viewportExpansion (opts b)) n)"
  "snd (buildChildren d ns b) = foldl assign_index b (postorder_list d (viewportExpansion (opts b)) ns)"
proof (induction d n b and d ns b rule: buildDomTree_buildChildren.induct)
  case (1 d b)
  show ?case by simp
next
  case (2 d t b)
  show ?case by (simp add: Let_def)
next
  case (3 d e cs sh fr b)
  show ?case
  proof (cases "reached d e")
    case False
    then show ?thesis by (auto simp: reached_def)
  next
    case True
    then have g: "el_id e \<noteq> HIGHLIGHT_CONTAINER_ID" "\<not> \<not> isElementAccepted e"
      "\<not> (\<not> is_body d e \<and> \<not> isElementVisible e)"
      by (auto simp: reached_def)
    let ?ve = "viewportExpansion (opts b)"
    obtain k1 b1 where c1: "buildChildren d cs b = (k1, b1)" by (cases "buildChildren d cs b")
    have s1: "b1 = foldl assign_index b (postorder_list d ?ve cs)"
      using "3.IH"(1) [OF g] c1 by simp
    then have o1: "opts b1 = opts b" by simp
    define sres where "sres = (case sh of None \<Rightarrow> ([], b1) | Some scs \<Rightarrow> buildChildren d scs b1)"
    obtain k2 b2 where c2: "sres = (k2, b2)" by (cases sres)
    have s2: "b2 = foldl assign_index b1 (case sh of None \<Rightarrow> [] | Some scs \<Rightarrow> postorder_list d ?ve scs)"
    proof (cases sh)
      case None
      with c2 show ?thesis by (simp add: sres_def)
    next
      case (Some scs)
      from "3.IH"(2) [OF g c1 [symmetric] Some] c2 Some o1 show ?thesis
        by (simp add: sres_def)
    qed
    then have o2: "opts b2 = opts b" using o1 by simp
    define fres where "fres =
      (if toUpperCase (tagName e) = ''IFRAME''
       then (case fr of
               FrameDocument (Some fb) \<Rightarrow>
                 (case buildDomTree d fb b2 of (Some t, b3) \<Rightarrow> ([t], b3) | (None, b3) \<Rightarrow> ([], b3))
             | _ \<Rightarrow> ([], b2))
       else ([], b2))"
    obtain k3 b3 where c3: "fres = (k3, b3)" by (cases fres)
    have s3: "b3 = foldl assign_index b2
        (if toUpperCase (tagName e) = ''IFRAME''
         then (case fr of FrameDocument (Some fb) \<Rightarrow> postorder d ?ve fb | _ \<Rightarrow> [])
         else [])"
    proof (cases "toUpperCase (tagName e) = ''IFRAME''")
      case False
      with c3 show ?thesis by (simp add: fres_def)
    next
      case iframe: True
      show ?thesis
      proof (cases fr)
        case FrameBlocked
        with c3 iframe show ?thesis by (simp add: fres_def)
      next
        case FrameNoDocument
        with c3 iframe show ?thesis by (simp add: fres_def)
      next
        case (FrameDocument x3)
        show ?thesis
        proof (cases x3)
          case None
          with c3 iframe FrameDocument show ?thesis by (simp add: fres_def)
        next
          case (Some fb)
          have "snd (buildDomTree d fb b2) = foldl assign_index b2 (postorder d (viewportExpansion (opts b2)) fb)"
            using "3.IH"(3) [OF g c1 [symmetric] _ iframe FrameDocument Some, of k2 b2] c2
            by (simp add: sres_def)
          moreover have "b3 = snd (buildDomTree d fb b2)"
            using c3 iframe FrameDocument Some
            by (auto simp: fres_def split: prod.splits option.splits)
          ultimately show ?thesis using iframe FrameDocument Some o2 by simp
        qed
      qed
    qed
    then have o3: "opts b3 = opts b" using o2 by simp
    have "snd (buildDomTree d (ElementNode e cs sh fr) b)
          = snd (evaluate_node d e ((initial_nodeData e)\<lparr>shadowRoot := (sh \<noteq> None)\<rparr>) b3)"
      using g c1 c2 c3 by (auto simp: sres_def fres_def split: prod.splits)
    also have "\<dots> = (if qualifies d ?ve e then assign_index b3 e else b3)"
      by (simp add: snd_evaluate_node o3)
    finally show ?thesis
      using True s1 s2 s3 by simp
  qed
next
  case (4 d b)
  show ?case by simp
next
  case (5 d c cs b)
  obtain r b1 where c: "buildDomTree d c b = (r, b1)" by (cases "buildDomTree d c b")
  have s1: "b1 = foldl assign_index b (postorder d (viewportExpansion (opts b)) c)"
    using "5.IH"(1) c by simp
  then have o1: "opts b1 = opts b" by simp
  have "snd (buildChildren d cs b1)
        = foldl assign_index b1 (postorder_list d (viewportExpansion (opts b1)) cs)"
    using "5.IH"(2) [OF c [symmetric]] .
  then show ?case using c s1 o1 by (auto split: prod.splits)
qed

lemma highlightIndex_assign [simp]: "highlightIndex (assign_index b e) = Suc (highlightIndex b)"
  by (simp add: assign_index_def Let_def highlightElement_def)

lemma selectorMap_assign [simp]:
  "selectorMap (assign_index b e) = (selectorMap b)(highlightIndex b \<mapsto> e)"
  by (simp add: assign_index_def Let_def highlightElement_def)

lemma highlightIndex_foldl:
  "highlightIndex (foldl assign_index b es) = highlightIndex b + length es"
  by (induction es arbitrary: b) simp_all

lemma selectorMap_foldl:
  "selectorMap (foldl assign_index b es) i =
     (if highlightIndex b \<le> i \<and> i < highlightIndex b + length es
      then Some (es ! (i - highlightIndex b)) else selectorMap b i)"
proof (induction es arbitrary: b)
  case Nil
  show ?case by auto
next
  case (Cons e es)
  have "selectorMap (foldl assign_index (assign_index b e) es) i =
     (if Suc (highlightIndex b) \<le> i \<and> i < Suc (highlightIndex b) + length es
      then Some (es ! (i - Suc (highlightIndex b)))
      else ((selectorMap b)(highlightIndex b \<mapsto> e)) i)"
    using Cons.IH [of "assign_index b e"] by simp
  then show ?case
    by (auto simp: nth_Cons' not_less_eq_eq)
qed

lemma build_as_fold:
  "snd (build d b) =
     foldl assign_index (removeHighlights (b\<lparr>highlightIndex := 0, selectorMap := Map.empty\<rparr>))
       (snapshot_order d b)"
proof (cases "body d")
  case None
  then show ?thesis by (simp add: build_def snapshot_order_def Let_def)
next
  case (Some n)
  let ?b0 = "removeHighlights (b\<lparr>highlightIndex := 0, selectorMap := Map.empty\<rparr>)"
  have "snd (build d b) = snd (buildDomTree d n ?b0)"
    using Some by (simp add: build_def Let_def)
  also have "\<dots> = foldl assign_index ?b0 (postorder d (viewportExpansion (opts ?b0)) n)"
    by (rule buildDomTree_as_fold)
  also have "opts ?b0 = opts b" by (simp add: removeHighlights_def)
  finally show ?thesis using Some by (simp add: snapshot_order_def)
qed

lemma build_highlightIndex: "highlightIndex (snd (build d b)) = length (snapshot_order d b)"
  by (simp add: build_as_fold highlightIndex_foldl removeHighlights_def)

lemma build_selectorMap:
  "selectorMap (snd (build d b)) i =
     (if i < length (snapshot_order d b) then Some (snapshot_order d b ! i) else None)"
  by (simp add: build_as_fold selectorMap_foldl removeHighlights_def)

lemma postorder_subset:
  "set (postorder d ve n) \<subseteq> {e. reached d e \<and> qualifies d ve e}"
  "set (postorder_list d ve ns) \<subseteq> {e. reached d e \<and> qualifies d ve e}"
proof (induct d ve n and d ve ns rule: postorder_postorder_list.induct)
  case (3 d ve e cs sh fr)
  show ?case
  proof (cases "reached d e")
    case False
    then show ?thesis by simp
  next
    case True
    then have r: "\<not> \<not> reached d e" by simp
    define l2 where "l2 = (case sh of None \<Rightarrow> [] | Some scs \<Rightarrow> postorder_list d ve scs)"
    define l3 where "l3 = (if toUpperCase (tagName e) = ''IFRAME''
                  then (case fr of FrameDocument (Some fb) \<Rightarrow> postorder d ve fb | _ \<Rightarrow> [])
                  else [])"
    define l4 where "l4 = (if qualifies d ve e then [e] else [])"
    have a: "set (postorder_list d ve cs) \<subseteq> {e. reached d e \<and> qualifies d ve e}"
      using 3(1) [OF r] .
    have b: "set l2 \<subseteq> {e. reached d e \<and> qualifies d ve e}"
      using 3(2) [OF r] by (cases sh) (simp_all add: l2_def)
    have c: "set l3 \<subseteq> {e. reached d e \<and> qualifies d ve e}"
    proof (cases "toUpperCase (tagName e) = ''IFRAME''")
      case False
      then show ?thesis by (simp add: l3_def)
    next
      case iframe: True
      show ?thesis
      proof (cases fr)
        case (FrameDocument x3)
        then show ?thesis using 3(3) [OF r iframe FrameDocument] iframe
          by (cases x3) (simp_all add: l3_def)
      qed (simp_all add: iframe l3_def)
    qed
    have d: "set l4 \<subseteq> {e. reached d e \<and> qualifies d ve e}"
      using True by (cases "qualifies d ve e") (simp_all add: l4_def)
    have "postorder d ve (ElementNode e cs sh fr) = postorder_list d ve cs @ l2 @ l3 @ l4"
      using True by (simp add: l2_def l3_def l4_def)
    with a b c d show ?thesis by simp
  qed
qed simp_all

lemma postorder_sound:
  "e \<in> set (postorder d ve n) \<Longrightarrow> reached d e \<and> qualifies d ve e"
  using postorder_subset(1) [of d ve n] by auto

text \<open>During the visit of a reached, qualifying element, the element itself receives the last
  index handed out, after everything inside it.\<close>

lemma ancestor_indexed_last:
  assumes "reached d e" and "qualifies d (viewportExpansion (opts b)) e"
  shows "selectorMap (snd (buildDomTree d (ElementNode e cs sh fr) b))
           (highlightIndex (snd (buildDomTree d (ElementNode e cs sh fr) b)) - 1) = Some e"
proof -
  let ?ve = "viewportExpansion (opts b)"
  define inner where "inner =
    postorder_list d ?ve cs
    @ (case sh of None \<Rightarrow> [] | Some scs \<Rightarrow> postorder_list d ?ve scs)
    @ (if toUpperCase (tagName e) = ''IFRAME''
       then (case fr of FrameDocument (Some fb) \<Rightarrow> postorder d ?ve fb | _ \<Rightarrow> [])
       else [])"
  have p: "postorder d ?ve (ElementNode e cs sh fr) = inner @ [e]"
    using assms by (simp add: inner_def)
  have s: "snd (buildDomTree d (ElementNode e cs sh fr) b) = foldl assign_index b (inner @ [e])"
    unfolding p [symmetric] by (rule buildDomTree_as_fold)
  show ?thesis
    unfolding s by (simp add: highlightIndex_foldl selectorMap_foldl)
qed

text \<open>
  Claim C4, as the code has it.  The assignment block of \<open>buildDomTree\<close> runs after the
  children, the shadow tree and the sub-document have been walked, so indices follow post-order:
  the selector map of a \<open>build\<close> call enumerates \<open>snapshot_order\<close>, the post-order list of
  the qualifying elements, from index 0 without gaps, and the counter ends at its length (it
  starts at 0 on each call and moves only on a qualifying element).
\<close>

theorem indices_postorder_contiguous:
  "highlightIndex (snd (build d b)) = length (snapshot_order d b)
   \<and> selectorMap (snd (build d b)) =
       (\<lambda>i. if i < length (snapshot_order d b) then Some (snapshot_order d b ! i) else None)
   \<and> dom (selectorMap (snd (build d b))) = {..<length (snapshot_order d b)}"
proof -
  have m: "selectorMap (snd (build d b)) =
       (\<lambda>i. if i < length (snapshot_order d b) then Some (snapshot_order d b ! i) else None)"
    by (rule ext) (rule build_selectorMap)
  have "dom (selectorMap (snd (build d b))) = {..<length (snapshot_order d b)}"
    unfolding m by (auto simp: dom_def)
  with m build_highlightIndex show ?thesis by blast
qed

text \<open>
  Claim C2, as the code has it.  Every element in the selector map of a \<open>build\<close> call is not
  the overlay container, has an accepted tag, passed the visibility test unless it is
  \<open>document.body\<close> (which the traversal exempts), lies in the expanded viewport, is topmost at
  the centre of its box, and matches the interactivity signature of \<open>isInteractiveElement\<close>
  (whose tab-order test is: a \<open>tabindex\<close> attribute is present and is not the string \<open>-1\<close>).
\<close>

theorem indexed_elements_pass_checks:
  assumes "selectorMap (snd (build d b)) i = Some e"
  shows "el_id e \<noteq> HIGHLIGHT_CONTAINER_ID \<and> isElementAccepted e
         \<and> (is_body d e \<or> isElementVisible e)
         \<and> isInExpandedViewport d e (viewportExpansion (opts b))
         \<and> isTopElement d e
         \<and> isInteractiveElement e"
proof -
  from assms have "i < length (snapshot_order d b)" "e = snapshot_order d b ! i"
    by (auto simp: build_selectorMap split: if_splits)
  then have "e \<in> set (snapshot_order d b)" by simp
  then obtain n where "body d = Some n" "e \<in> set (postorder d (viewportExpansion (opts b)) n)"
    by (cases "body d") (auto simp: snapshot_order_def)
  from postorder_sound [OF this(2)] show ?thesis
    by (simp add: reached_def qualifies_def)
qed

subsection \<open>The example documents evaluated\<close>

lemmas example_defs =
  reached_def qualifies_def is_body_def plain_element_def
  plain_style_def HIGHLIGHT_CONTAINER_ID_def isElementAccepted_def isElementVisible_def
  style_visible_def toLowerCase_def toUpperCase_def lower_char_def upper_char_def
  isInExpandedViewport_def rectInExpandedViewport_def r_right_def r_bottom_def
  isTopElement_def centerX_def centerY_def in_viewport_hit_def
  isInteractiveElement_def interactiveElements_tags_def interactiveRoles_def
  getAttribute_def hasAttribute_def DOMBuilder_new_def default_options_def

lemma nested_order: "snapshot_order nested_doc (DOMBuilder_new default_options) = [span_el, a_el]"
  by (simp add: snapshot_order_def nested_doc_def page_body_def a_el_def span_el_def example_defs)

text \<open>
  Claim C4 as stated fails: in \<^verbatim>\<open><body><a><span style="cursor:pointer"></span></a></body>\<close>
  both the link and the span inside it qualify; the span receives index 0 and its ancestor, the
  link, the higher index 1.
\<close>

theorem descendant_indexed_before_ancestor:
  "selectorMap (snd (build nested_doc (DOMBuilder_new default_options))) 0 = Some span_el
   \<and> selectorMap (snd (build nested_doc (DOMBuilder_new default_options))) 1 = Some a_el"
  by (simp add: build_selectorMap nested_order)

theorem indices_postorder_contiguous_witness:
  "highlightIndex (snd (build nested_doc (DOMBuilder_new default_options))) = 2
   \<and> dom (selectorMap (snd (build nested_doc (DOMBuilder_new default_options)))) = {..<2}"
proof -
  have l: "length (snapshot_order nested_doc (DOMBuilder_new default_options)) = 2"
    by (simp add: nested_order)
  from indices_postorder_contiguous [of nested_doc "DOMBuilder_new default_options"]
  show ?thesis unfolding l by blast
qed

theorem indexed_elements_pass_checks_witness:
  "selectorMap (snd (build nested_doc (DOMBuilder_new default_options))) 0 = Some span_el
   \<and> isElementAccepted span_el \<and> isElementVisible span_el
   \<and> isInExpandedViewport nested_doc span_el 300
   \<and> isTopElement nested_doc span_el \<and> isInteractiveElement span_el"
proof -
  have h: "selectorMap (snd (build nested_doc (DOMBuilder_new default_options))) 0 = Some span_el"
    by (simp add: build_selectorMap nested_order)
  have v: "isElementVisible span_el"
    by (simp add: span_el_def example_defs)
  from indexed_elements_pass_checks [OF h] h v show ?thesis
    by (simp add: DOMBuilder_new_def default_options_def)
qed

lemma overlay_order: "snapshot_order overlay_doc (DOMBuilder_new default_options) = [zero_body]"
  by (simp add: snapshot_order_def overlay_doc_def zero_body_def panel_el_def example_defs)

text \<open>
  Claim C2 as stated fails: the traversal skips the visibility test for \<open>document.body\<close>, so a
  body with \<open>offsetHeight = 0\<close> that is topmost at its centre and carries a click handler is
  given index 0 although it does not pass the visibility test.
\<close>

theorem invisible_body_indexed:
  "selectorMap (snd (build overlay_doc (DOMBuilder_new default_options))) 0 = Some zero_body
   \<and> \<not> isElementVisible zero_body"
  by (simp add: build_selectorMap overlay_order) (simp add: zero_body_def example_defs)

text \<open>The tab-order test accepts any \<open>tabindex\<close> value other than the string \<open>-1\<close>, negative
  ones included.\<close>

lemma tabindex_other_than_minus_one:
  "getAttribute e ''tabindex'' = Some ''-2'' \<Longrightarrow> isInteractiveElement e"
  by (simp add: isInteractiveElement_def)

lemma scrolled_order:
  "snapshot_order scrolled_doc (DOMBuilder_new whole_document_options) = []"
  by (simp add: snapshot_order_def scrolled_doc_def below_button_def page_body_def
        whole_document_options_def example_defs)

text \<open>
  Claim C5.  With \<open>viewportExpansion = -1\<close> the viewport-membership check passes for the button
  below the fold, which is visible and interactive; but hit testing at its centre, outside the
  viewport, answers \<^verbatim>\<open>null\<close>, the topmost check fails, and \<open>build\<close> returns an empty snapshot.
\<close>

theorem offscreen_button_not_indexed:
  "isInExpandedViewport scrolled_doc below_button (-1)
   \<and> isElementVisible below_button
   \<and> isInteractiveElement below_button
   \<and> \<not> isTopElement scrolled_doc below_button
   \<and> selectorMap (snd (build scrolled_doc (DOMBuilder_new whole_document_options))) = Map.empty
   \<and> highlightIndex (snd (build scrolled_doc (DOMBuilder_new whole_document_options))) = 0"
proof -
  have "selectorMap (snd (build scrolled_doc (DOMBuilder_new whole_document_options))) = Map.empty"
    by (rule ext) (simp add: build_selectorMap scrolled_order)
  moreover have "highlightIndex (snd (build scrolled_doc (DOMBuilder_new whole_document_options))) = 0"
    by (simp add: build_highlightIndex scrolled_order)
  moreover have "isInExpandedViewport scrolled_doc below_button (-1)"
    "isElementVisible below_button" "isInteractiveElement below_button"
    "\<not> isTopElement scrolled_doc below_button"
    by (simp_all add: scrolled_doc_def below_button_def example_defs)
  ultimately show ?thesis by blast
qed

section \<open>Action executor (extension/actionController.js)\<close>

subsection \<open>The page as the executor reads and changes it\<close>

text \<open>
  A live element carries what the executor reads and writes (\<^verbatim>\<open>tagName\<close>, the value of a form
  control, \<^verbatim>\<open>textContent\<close>, \<^verbatim>\<open>isContentEditable\<close>, its box) and how the page answers the
  calls made on it: \<open>click_error\<close> is the message of the exception \<^verbatim>\<open>click()\<close> raises, if any,
  and \<open>dispatch_error\<close> that of \<^verbatim>\<open>dispatchEvent\<close> for an event type.
\<close>

record live_element =
  le_tagName :: string
  le_value :: string
  le_textContent :: string
  isContentEditable :: bool
  le_rect :: rect
  click_error :: "string option"
  dispatch_error :: "string \<Rightarrow> string option"

text \<open>Every interaction the executor performs is appended to the page's log, in order;
  \<open>DispatchAt\<close> is a dispatched mouse event with its client coordinates.\<close>

datatype event =
    ScrollIntoView nat
  | Sleep real
  | Click nat
  | Dispatch nat string
  | DispatchAt nat string real real
  | Focus nat
  | ScrollBy real

datatype xpath_eval = XPathNode nat | XPathNull | XPathRaises

text \<open>
  The page: the outcome of \<^verbatim>\<open>document.evaluate\<close> per path, the elements by identity, the
  focused element, the interaction log, and what the extraction queries and the engine return
  (the visible texts, the serialised links, images and tables, the rendering of a number in a
  template literal, the message of a \<^verbatim>\<open>TypeError\<close>).
\<close>

record page =
  evaluate :: "string \<Rightarrow> xpath_eval"
  elems :: "nat \<Rightarrow> live_element"
  focused :: "nat option"
  events :: "event list"
  pg_innerHeight :: real
  pg_title :: string
  visible_texts :: "string list"
  links_json :: string
  images_json :: string
  tables_json :: string
  number_to_string :: "real \<Rightarrow> string"
  type_error_message :: string

record ActionController =
  ac_selectorMap :: "nat \<rightharpoonup> nat"
  debug :: bool

record exec_result =
  success :: bool
  message :: "string option"
  error :: "string option"
  extracted :: "string option"
  isComplete :: bool
  finalMessage :: "string option"
  taskSuccess :: "bool option"

datatype 'a outcome = Returns 'a | Throws string

definition plain_result :: exec_result where
  "plain_result =
     \<lparr>success = True, message = None, error = None, extracted = None, isComplete = False,
      finalMessage = None, taskSuccess = None\<rparr>"

definition log_event :: "event \<Rightarrow> page \<Rightarrow> page" where
  "log_event ev pg = pg\<lparr>events := events pg @ [ev]\<rparr>"

definition update_elem :: "nat \<Rightarrow> (live_element \<Rightarrow> live_element) \<Rightarrow> page \<Rightarrow> page" where
  "update_elem el f pg = pg\<lparr>elems := (elems pg)(el := f (elems pg el))\<rparr>"

definition quoted :: "string \<Rightarrow> string" where
  "quoted s = [CHR 0x22] @ s @ [CHR 0x22]"

subsection \<open>The operations\<close>

definition findElementByXPath :: "page \<Rightarrow> string \<Rightarrow> nat option" where
  "findElementByXPath pg xp =
     (case evaluate pg xp of XPathNode el \<Rightarrow> Some el | XPathNull \<Rightarrow> None | XPathRaises \<Rightarrow> None)"

text \<open>The nested \<^verbatim>\<open>try\<close> blocks shared by both click methods: \<^verbatim>\<open>click()\<close>; if it raises, a
  dispatched \<^verbatim>\<open>click\<close> event; if that raises, \<^verbatim>\<open>mousedown\<close> then \<^verbatim>\<open>mouseup\<close> with
  \<^verbatim>\<open>clientX = rect.left + rect.width / 2\<close> and \<^verbatim>\<open>clientY = rect.top + rect.height / 2\<close>, whose
  exceptions are not caught.\<close>

definition click_attempts :: "nat \<Rightarrow> page \<Rightarrow> unit outcome \<times> page" where
  "click_attempts el pg =
     (let e = elems pg el; pg1 = log_event (Click el) pg
      in case click_error e of
           None \<Rightarrow> (Returns (), pg1)
         | Some _ \<Rightarrow>
             (let pg2 = log_event (Dispatch el ''click'') pg1
              in case dispatch_error e ''click'' of
                   None \<Rightarrow> (Returns (), pg2)
                 | Some _ \<Rightarrow>
                     (let rect = le_rect e;
                          cx = r_left rect + r_width rect / 2;
                          cy = r_top rect + r_height rect / 2;
                          pg3 = log_event (DispatchAt el ''mousedown'' cx cy) pg2
                      in case dispatch_error e ''mousedown'' of
                           Some m \<Rightarrow> (Throws m, pg3)
                         | None \<Rightarrow>
                             (let pg4 = log_event (DispatchAt el ''mouseup'' cx cy) pg3
                              in case dispatch_error e ''mouseup'' of
                                   Some m \<Rightarrow> (Throws m, pg4)
                                 | None \<Rightarrow> (Returns (), pg4)))))"

definition click_found :: "nat \<Rightarrow> string \<Rightarrow> page \<Rightarrow> exec_result outcome \<times> page" where
  "click_found el note_text pg =
     (let pg1 = log_event (Sleep 500) (log_event (ScrollIntoView el) pg)
      in case click_attempts el pg1 of
           (Throws m, pg2) \<Rightarrow> (Throws m, pg2)
         | (Returns _, pg2) \<Rightarrow>
             (Returns (plain_result\<lparr>message := Some note_text\<rparr>), log_event (Sleep 300) pg2))"

definition clickElement :: "ActionController \<Rightarrow> nat \<Rightarrow> page \<Rightarrow> exec_result outcome \<times> page" where
  "clickElement c i pg =
     (case ac_selectorMap c i of
        None \<Rightarrow> (Throws (''Element with index '' @ show_nat i @ '' not found''), pg)
      | Some el \<Rightarrow> click_found el (''Clicked element with index '' @ show_nat i) pg)"

definition clickElementByXPath :: "string \<Rightarrow> page \<Rightarrow> exec_result outcome \<times> page" where
  "clickElementByXPath xp pg =
     (case findElementByXPath pg xp of
        None \<Rightarrow> (Throws (''Element with XPath '' @ quoted xp @ '' not found''), pg)
      | Some el \<Rightarrow> click_found el (''Clicked element with XPath '' @ quoted xp) pg)"

definition is_form_control :: "live_element \<Rightarrow> bool" where
  "is_form_control e \<longleftrightarrow> le_tagName e = ''INPUT'' \<or> le_tagName e = ''TEXTAREA''"

definition clear_existing :: "nat \<Rightarrow> page \<Rightarrow> page" where
  "clear_existing el pg =
     (if is_form_control (elems pg el) then update_elem el (\<lambda>e. e\<lparr>le_value := []\<rparr>) pg
      else if isContentEditable (elems pg el) then update_elem el (\<lambda>e. e\<lparr>le_textContent := []\<rparr>) pg
      else pg)"

definition append_char :: "nat \<Rightarrow> char \<Rightarrow> page \<Rightarrow> page" where
  "append_char el ch pg =
     (if is_form_control (elems pg el)
        then update_elem el (\<lambda>e. e\<lparr>le_value := le_value e @ [ch]\<rparr>) pg
      else if isContentEditable (elems pg el)
        then update_elem el (\<lambda>e. e\<lparr>le_textContent := le_textContent e @ [ch]\<rparr>) pg
      else pg)"

text \<open>The typing loop: per character the value grows, an \<^verbatim>\<open>input\<close> event is dispatched and
  10 ms pass; an exception from \<^verbatim>\<open>dispatchEvent\<close> leaves the loop.\<close>

fun type_chars :: "nat \<Rightarrow> string \<Rightarrow> page \<Rightarrow> unit outcome \<times> page" where
  "type_chars el [] pg = (Returns (), pg)"
| "type_chars el (ch # rest) pg =
     (let pg1 = log_event (Dispatch el ''input'') (append_char el ch pg)
      in case dispatch_error (elems pg1 el) ''input'' of
           Some m \<Rightarrow> (Throws m, pg1)
         | None \<Rightarrow> type_chars el rest (log_event (Sleep 10) pg1))"

text \<open>The body shared by both input methods, from \<^verbatim>\<open>element.focus()\<close> on.  A missing
  \<^verbatim>\<open>text\<close> is not iterable: the \<^verbatim>\<open>for ... of\<close> loop raises a \<^verbatim>\<open>TypeError\<close>, after the focus
  and the clearing.\<close>

definition input_found :: "nat \<Rightarrow> string option \<Rightarrow> (string \<Rightarrow> string) \<Rightarrow> page \<Rightarrow> exec_result outcome \<times> page" where
  "input_found el txt note_text pg =
     (let pg1 = (log_event (Focus el) pg)\<lparr>focused := Some el\<rparr>;
          pg2 = clear_existing el pg1
      in case txt of
           None \<Rightarrow> (Throws (type_error_message pg2), pg2)
         | Some s \<Rightarrow>
             (case type_chars el s pg2 of
                (Throws m, pg3) \<Rightarrow> (Throws m, pg3)
              | (Returns _, pg3) \<Rightarrow>
                  (let pg4 = log_event (Dispatch el ''change'') pg3
                   in case dispatch_error (elems pg4 el) ''change'' of
                        Some m \<Rightarrow> (Throws m, pg4)
                      | None \<Rightarrow> (Returns (plain_result\<lparr>message := Some (note_text s)\<rparr>), pg4))))"

definition inputText :: "ActionController \<Rightarrow> nat \<Rightarrow> string option \<Rightarrow> page \<Rightarrow> exec_result outcome \<times> page" where
  "inputText c i txt pg =
     (case ac_selectorMap c i of
        None \<Rightarrow> (Throws (''Element with index '' @ show_nat i @ '' not found''), pg)
      | Some el \<Rightarrow>
          input_found el txt
            (\<lambda>s. ''Input text '' @ quoted s @ '' into element with index '' @ show_nat i) pg)"

definition inputTextByXPath :: "string \<Rightarrow> string option \<Rightarrow> page \<Rightarrow> exec_result outcome \<times> page" where
  "inputTextByXPath xp txt pg =
     (case findElementByXPath pg xp of
        None \<Rightarrow> (Throws (''Element with XPath '' @ quoted xp @ '' not found''), pg)
      | Some el \<Rightarrow>
          input_found el txt
            (\<lambda>s. ''Input text '' @ quoted s @ '' into element with XPath '' @ quoted xp) pg)"

fun str_includes :: "string \<Rightarrow> string \<Rightarrow> bool" where
  "str_includes [] sub = (sub = [])"
| "str_includes (c # cs) sub = (take (length sub) (c # cs) = sub \<or> str_includes cs sub)"

fun join :: "string \<Rightarrow> string list \<Rightarrow> string" where
  "join sep [] = []"
| "join sep [x] = x"
| "join sep (x # y # ys) = x @ sep @ join sep (y # ys)"

definition extractContent :: "string option \<Rightarrow> page \<Rightarrow> exec_result outcome \<times> page" where
  "extractContent goal pg =
     (case goal of
        None \<Rightarrow> (Throws (type_error_message pg), pg)
      | Some g \<Rightarrow>
          (let lg = toLowerCase g;
               c1 = (if str_includes lg ''title''
                     then ''Page title: '' @ pg_title pg @ [CHR 0x0A, CHR 0x0A] else []);
               c2 = c1 @ (if str_includes lg ''text'' \<or> str_includes lg ''content''
                     then ''Page content:'' @ [CHR 0x0A]
                          @ join [CHR 0x0A, CHR 0x0A] (visible_texts pg) @ [CHR 0x0A, CHR 0x0A]
                     else []);
               c3 = c2 @ (if str_includes lg ''link'' \<or> str_includes lg ''url''
                     then ''Links:'' @ [CHR 0x0A] @ links_json pg @ [CHR 0x0A, CHR 0x0A] else []);
               c4 = c3 @ (if str_includes lg ''image''
                     then ''Images:'' @ [CHR 0x0A] @ images_json pg @ [CHR 0x0A, CHR 0x0A] else []);
               c5 = c4 @ (if str_includes lg ''table''
                     then ''Tables:'' @ [CHR 0x0A] @ tables_json pg @ [CHR 0x0A, CHR 0x0A] else [])
           in (Returns (plain_result\<lparr>extracted := Some c5\<rparr>), pg)))"

text \<open>\<^verbatim>\<open>scroll(direction = 'down', amount = 0)\<close>: a missing direction is \<^verbatim>\<open>'down'\<close>, a missing
  or zero amount is half the viewport height.\<close>

definition scroll :: "string option \<Rightarrow> real option \<Rightarrow> page \<Rightarrow> exec_result outcome \<times> page" where
  "scroll direction amount pg =
     (let dir = (case direction of None \<Rightarrow> ''down'' | Some s \<Rightarrow> s);
          amt = (case amount of None \<Rightarrow> 0 | Some a \<Rightarrow> a);
          scrollAmount = (if amt = 0 then pg_innerHeight pg / 2 else amt);
          scrollY = (if toLowerCase dir = ''down'' then scrollAmount else - scrollAmount);
          pg1 = log_event (Sleep 500) (log_event (ScrollBy scrollY) pg)
      in (Returns (plain_result\<lparr>message :=
            Some (''Scrolled '' @ dir @ '' by '' @ number_to_string pg scrollAmount @ ''px'')\<rparr>), pg1))"

text \<open>\<^verbatim>\<open>Math.max(100, Math.min(30000, seconds * 1000))\<close>, then the pause.\<close>

definition wait_ms :: "real \<Rightarrow> real" where
  "wait_ms seconds = max 100 (min 30000 (seconds * 1000))"

definition wait :: "real \<Rightarrow> page \<Rightarrow> exec_result outcome \<times> page" where
  "wait seconds pg =
     (Returns (plain_result\<lparr>message :=
         Some (''Waited for '' @ number_to_string pg seconds @ '' seconds'')\<rparr>),
      log_event (Sleep (wait_ms seconds)) pg)"

definition done_action :: "string option \<Rightarrow> bool option \<Rightarrow> exec_result" where
  "done_action txt succ =
     plain_result\<lparr>isComplete := True, finalMessage := txt,
                  taskSuccess := Some (case succ of None \<Rightarrow> True | Some b \<Rightarrow> b)\<rparr>"

text \<open>The \<^verbatim>\<open>switch\<close> of \<^verbatim>\<open>executeAction\<close>.  A path counts as given when it is a non-empty
  string; \<^verbatim>\<open>action.seconds || 1\<close> replaces a missing or zero duration by one second.\<close>

definition truthy :: "string option \<Rightarrow> bool" where
  "truthy v = (case v of None \<Rightarrow> False | Some s \<Rightarrow> s \<noteq> [])"

definition dispatch_action :: "ActionController \<Rightarrow> action \<Rightarrow> page \<Rightarrow> exec_result outcome \<times> page" where
  "dispatch_action c a pg =
     (if act_type a = Some ''click_element'' then
        (if truthy (act_xpath a) then clickElementByXPath (the (act_xpath a)) pg
         else case act_index a of
                Some i \<Rightarrow> clickElement c i pg
              | None \<Rightarrow> (Throws ''click_element requires either xpath or index parameter'', pg))
      else if act_type a = Some ''input_text'' then
        (if truthy (act_xpath a) then inputTextByXPath (the (act_xpath a)) (act_text a) pg
         else case act_index a of
                Some i \<Rightarrow> inputText c i (act_text a) pg
              | None \<Rightarrow> (Throws ''input_text requires either xpath or index parameter'', pg))
      else if act_type a = Some ''extract_content'' then extractContent (act_goal a) pg
      else if act_type a = Some ''scroll'' then scroll (act_direction a) (act_amount a) pg
      else if act_type a = Some ''wait'' then
        wait (case act_seconds a of None \<Rightarrow> 1 | Some s \<Rightarrow> if s = 0 then 1 else s) pg
      else if act_type a = Some ''done'' then
        (Returns (done_action (act_text a) (act_success a)), pg)
      else (Throws (''Unknown action type: '' @ js_str (act_type a)), pg))"

text \<open>\<^verbatim>\<open>executeAction\<close>: the \<^verbatim>\<open>catch\<close> turns every exception of the switch into a failed
  result; what the page underwent before the exception stays.\<close>

definition executeAction :: "ActionController \<Rightarrow> action \<Rightarrow> page \<Rightarrow> exec_result \<times> page" where
  "executeAction c a pg =
     (case dispatch_action c a pg of
        (Returns r, pg1) \<Rightarrow> (r, pg1)
      | (Throws m, pg1) \<Rightarrow> (plain_result\<lparr>success := False, error := Some m\<rparr>, pg1))"

subsection \<open>Resolution of a click, example pages\<close>

text \<open>The element a click action resolves to: by path when a path is given, else by index.\<close>

definition click_target :: "ActionController \<Rightarrow> action \<Rightarrow> page \<Rightarrow> nat option" where
  "click_target c a pg =
     (if truthy (act_xpath a) then findElementByXPath pg (the (act_xpath a))
      else case act_index a of Some i \<Rightarrow> ac_selectorMap c i | None \<Rightarrow> None)"

definition example_page :: "live_element \<Rightarrow> page" where
  "example_page e =
     \<lparr>evaluate = (\<lambda>xp. if xp = ''//button'' \<or> xp = ''//input'' then XPathNode 7 else XPathNull),
      elems = (\<lambda>_. e), focused = None, events = [], pg_innerHeight = 768,
      pg_title = ''Example'', visible_texts = [], links_json = ''[]'', images_json = ''[]'',
      tables_json = ''[]'', number_to_string = (\<lambda>x. if x = 45 then ''45'' else ''0''),
      type_error_message = ''text is not iterable''\<rparr>"

definition stubborn_button :: live_element where
  "stubborn_button =
     \<lparr>le_tagName = ''BUTTON'', le_value = [], le_textContent = ''Go'', isContentEditable = False,
      le_rect = \<lparr>r_left = 100, r_top = 200, r_width = 80, r_height = 30\<rparr>,
      click_error = Some ''click failed'',
      dispatch_error = (\<lambda>t. if t = ''click'' then Some ''dispatch failed'' else None)\<rparr>"

definition filled_input :: live_element where
  "filled_input =
     \<lparr>le_tagName = ''INPUT'', le_value = ''abc'', le_textContent = [], isContentEditable = False,
      le_rect = \<lparr>r_left = 0, r_top = 0, r_width = 200, r_height = 30\<rparr>,
      click_error = None, dispatch_error = (\<lambda>_. None)\<rparr>"

definition controller :: ActionController where
  "controller = \<lparr>ac_selectorMap = Map.empty, debug = False\<rparr>"

definition action_of_type :: "string \<Rightarrow> action" where
  "action_of_type t =
     \<lparr>act_type = Some t, act_xpath = None, act_index = None, act_text = None, act_goal = None,
      act_direction = None, act_amount = None, act_seconds = None, act_success = None\<rparr>"

subsection \<open>Properties of the executor\<close>

lemma elems_log_event [simp]: "elems (log_event ev pg) = elems pg"
  by (simp add: log_event_def)

lemma events_log_event [simp]: "events (log_event ev pg) = events pg @ [ev]"
  by (simp add: log_event_def)

lemma click_attempts_events:
  "events (snd (click_attempts el pg)) =
     events pg @ Click el #
       (if click_error (elems pg el) = None then []
        else Dispatch el ''click'' #
          (if dispatch_error (elems pg el) ''click'' = None then []
           else DispatchAt el ''mousedown''
                  (r_left (le_rect (elems pg el)) + r_width (le_rect (elems pg el)) / 2)
                  (r_top (le_rect (elems pg el)) + r_height (le_rect (elems pg el)) / 2) #
             (if dispatch_error (elems pg el) ''mousedown'' = None
              then [DispatchAt el ''mouseup''
                  (r_left (le_rect (elems pg el)) + r_width (le_rect (elems pg el)) / 2)
                  (r_top (le_rect (elems pg el)) + r_height (le_rect (elems pg el)) / 2)] else [])))"
  by (auto simp: click_attempts_def Let_def split: option.splits)

lemma click_attempts_returns:
  "(\<exists>u. fst (click_attempts el pg) = Returns u) \<longleftrightarrow>
     click_error (elems pg el) = None
     \<or> dispatch_error (elems pg el) ''click'' = None
     \<or> (dispatch_error (elems pg el) ''mousedown'' = None
        \<and> dispatch_error (elems pg el) ''mouseup'' = None)"
  by (auto simp: click_attempts_def Let_def split: option.splits)

lemma click_found_events:
  "events (snd (click_found el m pg)) =
     events pg @ [ScrollIntoView el, Sleep 500] @ Click el #
       (if click_error (elems pg el) = None then []
        else Dispatch el ''click'' #
          (if dispatch_error (elems pg el) ''click'' = None then []
           else DispatchAt el ''mousedown''
                  (r_left (le_rect (elems pg el)) + r_width (le_rect (elems pg el)) / 2)
                  (r_top (le_rect (elems pg el)) + r_height (le_rect (elems pg el)) / 2) #
             (if dispatch_error (elems pg el) ''mousedown'' = None
              then [DispatchAt el ''mouseup''
                  (r_left (le_rect (elems pg el)) + r_width (le_rect (elems pg el)) / 2)
                  (r_top (le_rect (elems pg el)) + r_height (le_rect (elems pg el)) / 2)] else [])))
       @ (if (\<exists>r. fst (click_found el m pg) = Returns r) then [Sleep 300] else [])"
proof -
  let ?pg1 = "log_event (Sleep 500) (log_event (ScrollIntoView el) pg)"
  obtain o1 pg2 where ca: "click_attempts el ?pg1 = (o1, pg2)" by (cases "click_attempts el ?pg1")
  have ev: "events pg2 = events ?pg1 @ Click el #
       (if click_error (elems pg el) = None then []
        else Dispatch el ''click'' #
          (if dispatch_error (elems pg el) ''click'' = None then []
           else DispatchAt el ''mousedown''
                  (r_left (le_rect (elems pg el)) + r_width (le_rect (elems pg el)) / 2)
                  (r_top (le_rect (elems pg el)) + r_height (le_rect (elems pg el)) / 2) #
             (if dispatch_error (elems pg el) ''mousedown'' = None
              then [DispatchAt el ''mouseup''
                  (r_left (le_rect (elems pg el)) + r_width (le_rect (elems pg el)) / 2)
                  (r_top (le_rect (elems pg el)) + r_height (le_rect (elems pg el)) / 2)] else [])))"
    using click_attempts_events [of el ?pg1] ca by simp
  show ?thesis
    using ca ev by (cases o1) (simp_all add: click_found_def Let_def)
qed

lemma click_found_returns:
  "(\<exists>r. fst (click_found el m pg) = Returns r) \<longleftrightarrow>
     click_error (elems pg el) = None
     \<or> dispatch_error (elems pg el) ''click'' = None
     \<or> (dispatch_error (elems pg el) ''mousedown'' = None
        \<and> dispatch_error (elems pg el) ''mouseup'' = None)"
proof -
  let ?pg1 = "log_event (Sleep 500) (log_event (ScrollIntoView el) pg)"
  have "(\<exists>r. fst (click_found el m pg) = Returns r) \<longleftrightarrow> (\<exists>u. fst (click_attempts el ?pg1) = Returns u)"
    by (cases "click_attempts el ?pg1"; cases "fst (click_attempts el ?pg1)")
       (auto simp: click_found_def Let_def)
  then show ?thesis using click_attempts_returns [of el ?pg1] by simp
qed

lemma dispatch_click:
  assumes "act_type a = Some ''click_element''" "click_target c a pg = Some el"
  shows "\<exists>m. dispatch_action c a pg = click_found el m pg"
proof (cases "truthy (act_xpath a)")
  case True
  with assms(2) have "findElementByXPath pg (the (act_xpath a)) = Some el"
    by (simp add: click_target_def)
  with True assms(1)
  have "dispatch_action c a pg
        = click_found el (''Clicked element with XPath '' @ quoted (the (act_xpath a))) pg"
    by (simp add: dispatch_action_def clickElementByXPath_def)
  then show ?thesis by blast
next
  case False
  with assms(2) obtain i where i: "act_index a = Some i" "ac_selectorMap c i = Some el"
    by (cases "act_index a") (simp_all add: click_target_def)
  with False assms(1)
  have "dispatch_action c a pg
        = click_found el (''Clicked element with index '' @ show_nat i) pg"
    by (simp add: dispatch_action_def clickElement_def)
  then show ?thesis by blast
qed

lemma executeAction_success:
  "success (fst (executeAction c a pg)) \<longleftrightarrow>
     (\<exists>r. fst (dispatch_action c a pg) = Returns r \<and> success r)"
  by (cases "dispatch_action c a pg"; cases "fst (dispatch_action c a pg)")
     (auto simp: executeAction_def plain_result_def)

lemma executeAction_page: "snd (executeAction c a pg) = snd (dispatch_action c a pg)"
  by (cases "dispatch_action c a pg"; cases "fst (dispatch_action c a pg)")
     (auto simp: executeAction_def)

lemma click_found_success:
  "fst (click_found el m pg) = Returns r \<Longrightarrow> success r"
  by (auto simp: click_found_def Let_def plain_result_def split: prod.splits outcome.splits)

text \<open>
  Claim C7.  A click action whose target resolves to an element \<open>el\<close> scrolls it into view,
  waits 500 ms, and then tries the activation tiers in a fixed order: \<^verbatim>\<open>click()\<close>; a dispatched
  \<^verbatim>\<open>click\<close> event exactly when \<^verbatim>\<open>click()\<close> raised; the \<^verbatim>\<open>mousedown\<close>/\<^verbatim>\<open>mouseup\<close> pair
  exactly when the dispatched click raised too, both events at the centre of the element's
  bounding box, that is at \<open>(left + width / 2, top + height / 2)\<close>; nothing is tried after the
  third tier.  The result reports success exactly when one of the tiers completes without
  raising.
\<close>

theorem click_three_tiers:
  assumes "act_type a = Some ''click_element''" and "click_target c a pg = Some el"
  shows "events (snd (executeAction c a pg)) =
           events pg @ [ScrollIntoView el, Sleep 500] @ Click el #
             (if click_error (elems pg el) = None then []
              else Dispatch el ''click'' #
                (if dispatch_error (elems pg el) ''click'' = None then []
                 else DispatchAt el ''mousedown''
                  (r_left (le_rect (elems pg el)) + r_width (le_rect (elems pg el)) / 2)
                  (r_top (le_rect (elems pg el)) + r_height (le_rect (elems pg el)) / 2) #
                   (if dispatch_error (elems pg el) ''mousedown'' = None
                    then [DispatchAt el ''mouseup''
                  (r_left (le_rect (elems pg el)) + r_width (le_rect (elems pg el)) / 2)
                  (r_top (le_rect (elems pg el)) + r_height (le_rect (elems pg el)) / 2)] else [])))
             @ (if success (fst (executeAction c a pg)) then [Sleep 300] else [])
         \<and> (success (fst (executeAction c a pg)) \<longleftrightarrow>
               click_error (elems pg el) = None
               \<or> dispatch_error (elems pg el) ''click'' = None
               \<or> (dispatch_error (elems pg el) ''mousedown'' = None
                  \<and> dispatch_error (elems pg el) ''mouseup'' = None))"
proof -
  from dispatch_click [OF assms] obtain m where d: "dispatch_action c a pg = click_found el m pg" ..
  have s: "success (fst (executeAction c a pg)) \<longleftrightarrow> (\<exists>r. fst (click_found el m pg) = Returns r)"
    unfolding executeAction_success d using click_found_success by blast
  show ?thesis
    unfolding s executeAction_page d
    using click_found_events [of el m pg] click_found_returns [of el m pg] by simp
qed

text \<open>
  Claim C9, as the code has it.  A wait action pauses once, for
  \<open>max 100 (min 30000 (s * 1000))\<close> milliseconds when its duration \<open>s\<close> is given and is not zero,
  and for 1000 ms when the duration is missing or zero (\<^verbatim>\<open>action.seconds || 1\<close>); the pause is
  between 100 and 30000 ms in every case, the page is otherwise untouched, and the result is a
  success.
\<close>

theorem wait_pause_bounded:
  assumes "act_type a = Some ''wait''"
  shows "\<exists>ms. snd (executeAction c a pg) = log_event (Sleep ms) pg
              \<and> ms = (case act_seconds a of
                         None \<Rightarrow> 1000
                       | Some s \<Rightarrow> if s = 0 then 1000 else max 100 (min 30000 (s * 1000)))
              \<and> 100 \<le> ms \<and> ms \<le> 30000
              \<and> success (fst (executeAction c a pg))"
proof -
  let ?p = "case act_seconds a of
              None \<Rightarrow> 1000
            | Some s \<Rightarrow> if s = 0 then 1000 else max 100 (min 30000 (s * 1000))"
  have d: "dispatch_action c a pg =
             wait (case act_seconds a of None \<Rightarrow> 1 | Some s \<Rightarrow> if s = 0 then 1 else s) pg"
    using assms by (simp add: dispatch_action_def)
  have p: "wait_ms (case act_seconds a of None \<Rightarrow> 1 | Some s \<Rightarrow> if s = 0 then 1 else s) = ?p"
    by (simp add: wait_ms_def split: option.splits)
  have b: "100 \<le> ?p \<and> ?p \<le> 30000"
    by (simp split: option.splits)
  have pg': "snd (executeAction c a pg) = log_event (Sleep ?p) pg"
    unfolding executeAction_page d by (simp add: wait_def p)
  have ok: "success (fst (executeAction c a pg))"
    unfolding executeAction_success d by (simp add: wait_def plain_result_def)
  from pg' ok b show ?thesis by blast
qed

subsection \<open>The example pages evaluated\<close>

theorem click_three_tiers_witness:
  "events (snd (executeAction controller ((action_of_type ''click_element'')\<lparr>act_xpath := Some ''//button''\<rparr>)
                  (example_page stubborn_button)))
     = [ScrollIntoView 7, Sleep 500, Click 7, Dispatch 7 ''click'',
        DispatchAt 7 ''mousedown'' 140 215, DispatchAt 7 ''mouseup'' 140 215, Sleep 300]
   \<and> success (fst (executeAction controller
                  ((action_of_type ''click_element'')\<lparr>act_xpath := Some ''//button''\<rparr>)
                  (example_page stubborn_button)))"
proof -
  let ?a = "(action_of_type ''click_element'')\<lparr>act_xpath := Some ''//button''\<rparr>"
  have t: "act_type ?a = Some ''click_element''" by (simp add: action_of_type_def)
  have r: "click_target controller ?a (example_page stubborn_button) = Some 7"
    by (simp add: click_target_def action_of_type_def truthy_def findElementByXPath_def
          example_page_def)
  from click_three_tiers [OF t r] show ?thesis
    by (simp add: example_page_def stubborn_button_def)
qed

text \<open>
  Claim C9 as stated fails for a duration of zero seconds: the clamp of \<open>0 * 1000\<close> is 100 ms,
  but the executor replaces the zero by the default of one second and pauses for 1000 ms.
\<close>

theorem wait_zero_takes_default:
  "events (snd (executeAction controller ((action_of_type ''wait'')\<lparr>act_seconds := Some 0\<rparr>)
                  (example_page filled_input))) = [Sleep 1000]
   \<and> max 100 (min 30000 (0 * 1000)) = (100 :: real)"
  by (simp add: executeAction_page dispatch_action_def action_of_type_def wait_def wait_ms_def
        example_page_def)

theorem wait_pause_bounded_witness:
  "events (snd (executeAction controller ((action_of_type ''wait'')\<lparr>act_seconds := Some 45\<rparr>)
                  (example_page filled_input))) = [Sleep 30000]
   \<and> success (fst (executeAction controller ((action_of_type ''wait'')\<lparr>act_seconds := Some 45\<rparr>)
                  (example_page filled_input)))"
proof -
  let ?a = "(action_of_type ''wait'')\<lparr>act_seconds := Some 45\<rparr>"
  have t: "act_type ?a = Some ''wait''" by (simp add: action_of_type_def)
  from wait_pause_bounded [OF t, of controller "example_page filled_input"] show ?thesis
    by (auto simp: action_of_type_def example_page_def)
qed

text \<open>A click or an input action with neither path nor index is rejected before anything is
  done to the page.\<close>

lemma missing_locator_rejected:
  assumes "act_type a = Some ''click_element'' \<or> act_type a = Some ''input_text''"
    and "\<not> truthy (act_xpath a)" and "act_index a = None"
  shows "snd (executeAction c a pg) = pg \<and> \<not> success (fst (executeAction c a pg))"
  using assms by (auto simp: executeAction_def dispatch_action_def plain_result_def)

text \<open>An input action whose path resolves and whose \<^verbatim>\<open>text\<close> is missing fails after the
  element has been focused and, for a form control, emptied.\<close>

lemma input_without_text_partial:
  assumes "act_type a = Some ''input_text''" and "truthy (act_xpath a)"
    and "findElementByXPath pg (the (act_xpath a)) = Some el" and "act_text a = None"
  shows "\<not> success (fst (executeAction c a pg))
         \<and> focused (snd (executeAction c a pg)) = Some el
         \<and> events (snd (executeAction c a pg)) = events pg @ [Focus el]
         \<and> (is_form_control (elems pg el) \<longrightarrow> le_value (elems (snd (executeAction c a pg)) el) = [])"
proof -
  let ?pg' = "clear_existing el ((log_event (Focus el) pg)\<lparr>focused := Some el\<rparr>)"
  have d: "dispatch_action c a pg = (Throws (type_error_message ?pg'), ?pg')"
    using assms by (simp add: dispatch_action_def inputTextByXPath_def input_found_def Let_def)
  have e: "executeAction c a pg
            = (plain_result\<lparr>success := False, error := Some (type_error_message ?pg')\<rparr>, ?pg')"
    by (simp add: executeAction_def d)
  show ?thesis
    unfolding e by (simp add: clear_existing_def update_elem_def log_event_def)
qed

text \<open>
  Claim C6.  An input action with a resolvable path and no \<^verbatim>\<open>text\<close> is not rejected before
  execution: the field is focused and its value \<open>abc\<close> is cleared before the typing loop raises
  on the missing text; the result is a failure, and the page has changed.
\<close>

theorem input_without_text_clears_field:
  "\<not> success (fst (executeAction controller
        ((action_of_type ''input_text'')\<lparr>act_xpath := Some ''//input''\<rparr>) (example_page filled_input)))
   \<and> le_value (elems (example_page filled_input) 7) = ''abc''
   \<and> le_value (elems (snd (executeAction controller
        ((action_of_type ''input_text'')\<lparr>act_xpath := Some ''//input''\<rparr>) (example_page filled_input))) 7) = []
   \<and> focused (snd (executeAction controller
        ((action_of_type ''input_text'')\<lparr>act_xpath := Some ''//input''\<rparr>) (example_page filled_input))) = Some 7
   \<and> events (snd (executeAction controller
        ((action_of_type ''input_text'')\<lparr>act_xpath := Some ''//input''\<rparr>) (example_page filled_input))) = [Focus 7]"
proof -
  let ?a = "(action_of_type ''input_text'')\<lparr>act_xpath := Some ''//input''\<rparr>"
  let ?pg = "example_page filled_input"
  let ?pg' = "(clear_existing 7 ((log_event (Focus 7) ?pg)\<lparr>focused := Some 7\<rparr>))"
  have d: "dispatch_action controller ?a ?pg = (Throws (type_error_message ?pg'), ?pg')"
    by (simp add: dispatch_action_def action_of_type_def truthy_def inputTextByXPath_def
          findElementByXPath_def example_page_def input_found_def Let_def)
  have e: "executeAction controller ?a ?pg
            = (plain_result\<lparr>success := False, error := Some (type_error_message ?pg')\<rparr>, ?pg')"
    by (simp add: executeAction_def d)
  show ?thesis
    unfolding e
    by (simp add: example_page_def filled_input_def clear_existing_def is_form_control_def
          update_elem_def log_event_def)
qed

section \<open>Content script: one action at a time\<close>

text \<open>
  The content script runs on the page's event loop.  Between two \<^verbatim>\<open>await\<close> points a handler
  runs without interruption, so the script is a transition system whose steps are the handlers'
  uninterrupted segments: \<^verbatim>\<open>init\<close>; an incoming action message (\<^verbatim>\<open>handleAction\<close> up to its
  \<^verbatim>\<open>await\<close>); the awaited \<^verbatim>\<open>executeAction\<close> settling and its result being sent (the rest of
  the \<^verbatim>\<open>try\<close> block); an exception raised in the \<^verbatim>\<open>try\<close> block (the \<^verbatim>\<open>catch\<close> block); the
  300 ms timer firing; and any other call of \<^verbatim>\<open>collectAndSendDOM\<close> (a \<^verbatim>\<open>requestDOM\<close> message,
  the debounced mutation observer, a configuration update).  \<open>in_flight\<close> holds the actions
  whose \<^verbatim>\<open>executeAction\<close> has been called and has not settled; \<open>timers\<close> counts the pending
  300 ms timers; \<open>sent\<close> is what the script did, in order.

  Building the snapshot and \<^verbatim>\<open>chrome.runtime.sendMessage\<close> may raise; what they do is the
  environment's choice and comes with the event.  An \<open>observation\<close> says how the body of
  \<^verbatim>\<open>collectAndSendDOM\<close> goes: the snapshot is built and sent; or building or sending raises and
  the \<^verbatim>\<open>catch\<close> block sends an \<^verbatim>\<open>error\<close> message instead; or sending that message raises too
  and the exception leaves the function.
\<close>

datatype observation = Snapshot | Failure | Escaped string

datatype sent_item =
    Queued action
  | Started action
  | ResultSent bool
  | ReportRaised
  | Observed
  | ObserveFailed
  | ObserveRaised

datatype script_event =
    Init
  | Incoming action
  | Settled exec_result
  | Raised bool observation
  | TimerFired observation
  | CollectRequested observation

record content_state =
  initialised :: bool
  isProcessing :: bool
  pendingActionQueue :: "action list"
  in_flight :: "action list"
  timers :: nat
  sent :: "sent_item list"

definition content_initial :: content_state where
  "content_initial =
     \<lparr>initialised = False, isProcessing = False, pendingActionQueue = [], in_flight = [],
      timers = 0, sent = []\<rparr>"

text \<open>\<^verbatim>\<open>collectAndSendDOM\<close>: nothing without a builder or while an action is processed;
  otherwise the \<^verbatim>\<open>try\<close> block builds and sends a snapshot, and its \<^verbatim>\<open>catch\<close> block sends an
  \<^verbatim>\<open>error\<close> message when that raised.\<close>

definition collectAndSendDOM :: "observation \<Rightarrow> content_state \<Rightarrow> unit outcome \<times> content_state" where
  "collectAndSendDOM ob s =
     (if \<not> initialised s \<or> isProcessing s then (Returns (), s)
      else case ob of
             Snapshot \<Rightarrow> (Returns (), s\<lparr>sent := sent s @ [Observed]\<rparr>)
           | Failure \<Rightarrow> (Returns (), s\<lparr>sent := sent s @ [ObserveFailed]\<rparr>)
           | Escaped m \<Rightarrow> (Throws m, s\<lparr>sent := sent s @ [ObserveRaised]\<rparr>))"

text \<open>\<^verbatim>\<open>handleAction\<close> up to the \<^verbatim>\<open>await\<close>.\<close>

definition handleAction :: "action \<Rightarrow> content_state \<Rightarrow> content_state" where
  "handleAction a s =
     (if \<not> initialised s then s
      else if isProcessing s
        then s\<lparr>pendingActionQueue := pendingActionQueue s @ [a], sent := sent s @ [Queued a]\<rparr>
      else s\<lparr>isProcessing := True, in_flight := in_flight s @ [a], sent := sent s @ [Started a]\<rparr>)"

text \<open>After the \<^verbatim>\<open>await\<close>: the result is sent and the 300 ms timer is set.\<close>

definition after_result :: "exec_result \<Rightarrow> content_state \<Rightarrow> content_state" where
  "after_result r s =
     (case in_flight s of
        [] \<Rightarrow> s
      | a # rest \<Rightarrow>
          s\<lparr>in_flight := rest, sent := sent s @ [ResultSent (success r)], timers := timers s + 1\<rparr>)"

text \<open>The \<^verbatim>\<open>catch\<close> block: a failure is sent, the flag is cleared, the document is observed;
  the queue is not looked at.  When sending the failure raises, the exception leaves the
  handler before the flag is cleared.\<close>

definition after_exception :: "bool \<Rightarrow> observation \<Rightarrow> content_state \<Rightarrow> content_state" where
  "after_exception reported ob s =
     (case in_flight s of
        [] \<Rightarrow> s
      | a # rest \<Rightarrow>
          if \<not> reported then s\<lparr>in_flight := rest, sent := sent s @ [ReportRaised]\<rparr>
          else snd (collectAndSendDOM ob
                 (s\<lparr>in_flight := rest, sent := sent s @ [ResultSent False], isProcessing := False\<rparr>)))"

text \<open>The timer callback: the flag is cleared, the document is observed, and the next queued
  action, if any, is handed to \<^verbatim>\<open>handleAction\<close>; an exception leaving \<^verbatim>\<open>collectAndSendDOM\<close>
  ends the callback before the queue is looked at.\<close>

definition timer_callback :: "observation \<Rightarrow> content_state \<Rightarrow> content_state" where
  "timer_callback ob s =
     (if timers s = 0 then s
      else case collectAndSendDOM ob (s\<lparr>timers := timers s - 1, isProcessing := False\<rparr>) of
             (Throws m, s1) \<Rightarrow> s1
           | (Returns u, s1) \<Rightarrow>
               (case pendingActionQueue s1 of
                  [] \<Rightarrow> s1
                | nextAction # rest \<Rightarrow> handleAction nextAction (s1\<lparr>pendingActionQueue := rest\<rparr>)))"

fun script_step :: "content_state \<Rightarrow> script_event \<Rightarrow> content_state" where
  "script_step s Init = s\<lparr>initialised := True\<rparr>"
| "script_step s (Incoming a) = handleAction a s"
| "script_step s (Settled r) = after_result r s"
| "script_step s (Raised reported ob) = after_exception reported ob s"
| "script_step s (TimerFired ob) = timer_callback ob s"
| "script_step s (CollectRequested ob) = snd (collectAndSendDOM ob s)"

definition script_run :: "script_event list \<Rightarrow> content_state" where
  "script_run evs = foldl script_step content_initial evs"

text \<open>What one observation leaves in the log.\<close>

fun observation_item :: "observation \<Rightarrow> sent_item" where
  "observation_item Snapshot = Observed"
| "observation_item Failure = ObserveFailed"
| "observation_item (Escaped m) = ObserveRaised"

text \<open>
  Reading a log: an action may start only when none is running and \<^verbatim>\<open>collectAndSendDOM\<close> has
  been gone through since the last one completed, whatever its outcome; a result is sent only
  for the running action; the document is never observed while an action runs; after a failure
  report that raised nothing starts any more.
\<close>

datatype phase = Idle | Running | Completed | Stuck

fun phase_step :: "phase \<Rightarrow> sent_item \<Rightarrow> phase option" where
  "phase_step p (Queued a) = Some p"
| "phase_step p (Started a) = (if p = Idle then Some Running else None)"
| "phase_step p (ResultSent b) = (if p = Running then Some Completed else None)"
| "phase_step p ReportRaised = (if p = Running then Some Stuck else None)"
| "phase_step p x = (if p = Idle \<or> p = Completed then Some Idle else None)"

fun phase_after :: "phase \<Rightarrow> sent_item list \<Rightarrow> phase option" where
  "phase_after p [] = Some p"
| "phase_after p (x # xs) = (case phase_step p x of None \<Rightarrow> None | Some q \<Rightarrow> phase_after q xs)"

definition one_at_a_time :: "sent_item list \<Rightarrow> bool" where
  "one_at_a_time xs \<longleftrightarrow> phase_after Idle xs \<noteq> None"

text \<open>The reading the statement asks for: the same, with a snapshot sent before every start.\<close>

fun strict_step :: "phase \<Rightarrow> sent_item \<Rightarrow> phase option" where
  "strict_step p (Queued a) = Some p"
| "strict_step p (Started a) = (if p = Idle then Some Running else None)"
| "strict_step p (ResultSent b) = (if p = Running then Some Completed else None)"
| "strict_step p ReportRaised = (if p = Running then Some Stuck else None)"
| "strict_step p Observed = (if p = Idle \<or> p = Completed then Some Idle else None)"
| "strict_step p x = (if p = Idle \<or> p = Completed then Some p else None)"

fun strict_after :: "phase \<Rightarrow> sent_item list \<Rightarrow> phase option" where
  "strict_after p [] = Some p"
| "strict_after p (x # xs) = (case strict_step p x of None \<Rightarrow> None | Some q \<Rightarrow> strict_after q xs)"

definition observed_before_start :: "sent_item list \<Rightarrow> bool" where
  "observed_before_start xs \<longleftrightarrow> strict_after Idle xs \<noteq> None"

subsection \<open>Invariant and example\<close>

definition phase_of :: "content_state \<Rightarrow> phase" where
  "phase_of s =
     (if in_flight s \<noteq> [] then Running
      else if timers s > 0 then Completed
      else if isProcessing s then Stuck
      else Idle)"

definition script_inv :: "content_state \<Rightarrow> bool" where
  "script_inv s \<longleftrightarrow>
     length (in_flight s) + timers s \<le> 1
     \<and> (isProcessing s \<or> (in_flight s = [] \<and> timers s = 0))
     \<and> (initialised s \<or> \<not> isProcessing s)
     \<and> phase_after Idle (sent s) = Some (phase_of s)"

definition click_action :: action where
  "click_action = (action_of_type ''click_element'')\<lparr>act_xpath := Some ''//button''\<rparr>"

definition wait_action :: action where
  "wait_action = action_of_type ''wait''"

definition failed_result :: exec_result where
  "failed_result = plain_result\<lparr>success := False, error := Some ''Element not found''\<rparr>"

subsection \<open>Single flight\<close>

lemma phase_after_append:
  "phase_after p (xs @ ys) = (case phase_after p xs of None \<Rightarrow> None | Some q \<Rightarrow> phase_after q ys)"
  by (induction xs arbitrary: p) (auto split: option.splits)

lemma phase_step_observation:
  "phase_step p (observation_item ob) = (if p = Idle \<or> p = Completed then Some Idle else None)"
  by (cases ob) simp_all

lemma collect_idle:
  "initialised s \<Longrightarrow> \<not> isProcessing s \<Longrightarrow>
     snd (collectAndSendDOM ob s) = s\<lparr>sent := sent s @ [observation_item ob]\<rparr>"
  by (cases ob) (simp_all add: collectAndSendDOM_def)

lemma collect_busy:
  "\<not> initialised s \<or> isProcessing s \<Longrightarrow> collectAndSendDOM ob s = (Returns (), s)"
  by (simp add: collectAndSendDOM_def)

lemma collect_returns:
  "(\<exists>u. fst (collectAndSendDOM ob s) = Returns u) \<longleftrightarrow>
     \<not> initialised s \<or> isProcessing s \<or> (\<forall>m. ob \<noteq> Escaped m)"
  by (cases ob) (simp_all add: collectAndSendDOM_def)

lemma inv_initial: "script_inv content_initial"
  by (simp add: script_inv_def content_initial_def phase_of_def)

lemma inv_observed:
  assumes "script_inv s" and "initialised s" and "\<not> isProcessing s"
  shows "script_inv (s\<lparr>sent := sent s @ [observation_item ob]\<rparr>)"
  using assms
  by (auto simp: script_inv_def phase_of_def phase_after_append phase_step_observation)

lemma inv_collect: "script_inv s \<Longrightarrow> script_inv (snd (collectAndSendDOM ob s))"
proof (cases "\<not> initialised s \<or> isProcessing s")
  case True
  assume "script_inv s"
  with True show ?thesis by (simp add: collect_busy)
next
  case False
  assume "script_inv s"
  with False show ?thesis by (simp add: collect_idle inv_observed)
qed

lemma inv_handleAction: "script_inv s \<Longrightarrow> script_inv (handleAction a s)"
  by (auto simp: script_inv_def handleAction_def phase_of_def phase_after_append)

lemma inv_after_result: "script_inv s \<Longrightarrow> script_inv (after_result r s)"
  by (cases "in_flight s")
     (auto simp: script_inv_def after_result_def phase_of_def phase_after_append)

lemma inv_after_exception:
  assumes "script_inv s"
  shows "script_inv (after_exception reported ob s)"
proof (cases "in_flight s")
  case Nil
  with assms show ?thesis by (simp add: after_exception_def)
next
  case (Cons a rest)
  with assms have "length (in_flight s) + timers s \<le> 1" by (simp add: script_inv_def)
  with Cons have r: "rest = []" "timers s = 0" by simp_all
  from assms Cons have f: "isProcessing s" "initialised s"
    and p: "phase_after Idle (sent s) = Some Running"
    by (auto simp: script_inv_def phase_of_def)
  show ?thesis
  proof (cases reported)
    case False
    with Cons r f p show ?thesis
      by (simp add: after_exception_def script_inv_def phase_of_def phase_after_append)
  next
    case True
    let ?s1 = "s\<lparr>in_flight := rest, sent := sent s @ [ResultSent False], isProcessing := False\<rparr>"
    have s1: "snd (collectAndSendDOM ob ?s1)
                = ?s1\<lparr>sent := sent ?s1 @ [observation_item ob]\<rparr>"
      using f by (simp add: collect_idle)
    have "script_inv (?s1\<lparr>sent := sent ?s1 @ [observation_item ob]\<rparr>)"
      using r f p
      by (simp add: script_inv_def phase_of_def phase_after_append phase_step_observation)
    with True Cons s1 show ?thesis by (simp add: after_exception_def)
  qed
qed

lemma timer_state:
  assumes "script_inv s" and "timers s > 0"
  shows "timers s = 1 \<and> in_flight s = [] \<and> isProcessing s \<and> initialised s
         \<and> phase_after Idle (sent s) = Some Completed"
proof -
  from assms have "length (in_flight s) + timers s \<le> 1" by (simp add: script_inv_def)
  with assms(2) have "length (in_flight s) = 0 \<and> timers s = 1" by arith
  with assms show ?thesis by (auto simp: script_inv_def phase_of_def)
qed

lemma timer_collect:
  assumes "script_inv s" and "timers s > 0"
  shows "snd (collectAndSendDOM ob (s\<lparr>timers := timers s - 1, isProcessing := False\<rparr>))
           = s\<lparr>timers := 0, isProcessing := False, sent := sent s @ [observation_item ob]\<rparr>"
  using timer_state [OF assms] by (simp add: collect_idle)

lemma timer_collect_fst:
  assumes "script_inv s" and "timers s > 0"
  shows "fst (collectAndSendDOM ob (s\<lparr>timers := timers s - 1, isProcessing := False\<rparr>))
           = (case ob of Escaped m \<Rightarrow> Throws m | _ \<Rightarrow> Returns ())"
  using timer_state [OF assms] by (cases ob) (simp_all add: collectAndSendDOM_def)

lemma timer_callback_eq:
  assumes "script_inv s" and "timers s > 0"
  shows "timer_callback ob s =
           (let s1 = s\<lparr>timers := 0, isProcessing := False, sent := sent s @ [observation_item ob]\<rparr>
            in case ob of
                 Escaped m \<Rightarrow> s1
               | _ \<Rightarrow> (case pendingActionQueue s of
                         [] \<Rightarrow> s1
                       | nextAction # rest \<Rightarrow>
                           handleAction nextAction (s1\<lparr>pendingActionQueue := rest\<rparr>)))"
proof -
  let ?c = "collectAndSendDOM ob (s\<lparr>timers := timers s - 1, isProcessing := False\<rparr>)"
  have c: "?c = (fst ?c, snd ?c)" by simp
  show ?thesis
    unfolding timer_callback_def
    using assms(2)
    by (subst c, unfold timer_collect [OF assms] timer_collect_fst [OF assms])
       (cases ob; simp add: Let_def)
qed

lemma inv_timer:
  assumes "script_inv s"
  shows "script_inv (timer_callback ob s)"
proof (cases "timers s = 0")
  case True
  with assms show ?thesis by (simp add: timer_callback_def)
next
  case False
  then have t: "timers s > 0" by simp
  note f = timer_state [OF assms t]
  let ?s1 = "s\<lparr>timers := 0, isProcessing := False, sent := sent s @ [observation_item ob]\<rparr>"
  have i1: "script_inv ?s1"
    using f by (simp add: script_inv_def phase_of_def phase_after_append phase_step_observation)
  have i2: "script_inv (handleAction a (?s1\<lparr>pendingActionQueue := rest\<rparr>))" for a rest
  proof -
    have "script_inv (?s1\<lparr>pendingActionQueue := rest\<rparr>)"
      using i1 by (simp add: script_inv_def phase_of_def)
    then show ?thesis by (rule inv_handleAction)
  qed
  show ?thesis
    unfolding timer_callback_eq [OF assms t] Let_def
    using i1 i2 by (cases ob; cases "pendingActionQueue s") simp_all
qed

lemma inv_init: "script_inv s \<Longrightarrow> script_inv (s\<lparr>initialised := True\<rparr>)"
  by (simp add: script_inv_def phase_of_def)

lemma inv_step: "script_inv s \<Longrightarrow> script_inv (script_step s ev)"
  by (cases ev)
     (simp_all add: inv_init inv_collect inv_handleAction inv_after_result inv_after_exception
                    inv_timer)

lemma inv_foldl: "script_inv s \<Longrightarrow> script_inv (foldl script_step s evs)"
  by (induction evs arbitrary: s) (simp_all add: inv_step)

lemma inv_run: "script_inv (script_run evs)"
  unfolding script_run_def by (rule inv_foldl) (rule inv_initial)

text \<open>
  Claim C8, as the code has it.  After every sequence of script events (incoming actions,
  settlements with a successful or failed result or with an exception, timer firings,
  observation requests, each with any outcome of building and sending), at most one action is
  in flight, and the log reads as one action at a time: an action starts only when none is
  running and \<^verbatim>\<open>collectAndSendDOM\<close> has been gone through since the last one completed.  An
  action that arrives while one is in flight is appended to the pending queue and starts
  nothing.  When the timer of a completed action fires with a non-empty queue, the document
  is observed first, and then: if the snapshot was built and sent, or if that raised and the
  \<^verbatim>\<open>error\<close> message was sent instead, the head of the queue is started next; if sending the
  \<^verbatim>\<open>error\<close> message raised too, nothing is started and the queue is left as it was.
\<close>

theorem single_flight:
  "length (in_flight (script_run evs)) \<le> 1
   \<and> one_at_a_time (sent (script_run evs))
   \<and> (in_flight (script_run evs) \<noteq> [] \<longrightarrow>
        in_flight (script_step (script_run evs) (Incoming a)) = in_flight (script_run evs)
        \<and> pendingActionQueue (script_step (script_run evs) (Incoming a))
            = pendingActionQueue (script_run evs) @ [a]
        \<and> sent (script_step (script_run evs) (Incoming a)) = sent (script_run evs) @ [Queued a])
   \<and> (\<forall>q rest. pendingActionQueue (script_run evs) = q # rest \<longrightarrow> timers (script_run evs) > 0 \<longrightarrow>
        sent (script_step (script_run evs) (TimerFired Snapshot))
          = sent (script_run evs) @ [Observed, Started q]
        \<and> sent (script_step (script_run evs) (TimerFired Failure))
          = sent (script_run evs) @ [ObserveFailed, Started q]
        \<and> (\<forall>m. sent (script_step (script_run evs) (TimerFired (Escaped m)))
                  = sent (script_run evs) @ [ObserveRaised]
                \<and> pendingActionQueue (script_step (script_run evs) (TimerFired (Escaped m)))
                  = q # rest
                \<and> in_flight (script_step (script_run evs) (TimerFired (Escaped m))) = [])
        \<and> (\<forall>ob. (\<forall>m. ob \<noteq> Escaped m) \<longrightarrow>
              in_flight (script_step (script_run evs) (TimerFired ob)) = [q]
              \<and> pendingActionQueue (script_step (script_run evs) (TimerFired ob)) = rest))"
proof -
  let ?s = "script_run evs"
  have i: "script_inv ?s" by (rule inv_run)
  have a: "length (in_flight ?s) \<le> 1" using i by (simp add: script_inv_def)
  have b: "one_at_a_time (sent ?s)" using i by (simp add: script_inv_def one_at_a_time_def)
  have c: "in_flight ?s \<noteq> [] \<longrightarrow>
        in_flight (script_step ?s (Incoming a)) = in_flight ?s
        \<and> pendingActionQueue (script_step ?s (Incoming a)) = pendingActionQueue ?s @ [a]
        \<and> sent (script_step ?s (Incoming a)) = sent ?s @ [Queued a]"
    using i by (auto simp: script_inv_def handleAction_def)
  have d: "sent (script_step ?s (TimerFired Snapshot)) = sent ?s @ [Observed, Started q]
        \<and> sent (script_step ?s (TimerFired Failure)) = sent ?s @ [ObserveFailed, Started q]
        \<and> (\<forall>m. sent (script_step ?s (TimerFired (Escaped m))) = sent ?s @ [ObserveRaised]
                \<and> pendingActionQueue (script_step ?s (TimerFired (Escaped m))) = q # rest
                \<and> in_flight (script_step ?s (TimerFired (Escaped m))) = [])
        \<and> (\<forall>ob. (\<forall>m. ob \<noteq> Escaped m) \<longrightarrow>
              in_flight (script_step ?s (TimerFired ob)) = [q]
              \<and> pendingActionQueue (script_step ?s (TimerFired ob)) = rest)"
    if q: "pendingActionQueue ?s = q # rest" and t: "timers ?s > 0" for q rest
  proof -
    note f = timer_state [OF i t]
    have e: "script_step ?s (TimerFired ob) =
               (let s1 = ?s\<lparr>timers := 0, isProcessing := False,
                             sent := sent ?s @ [observation_item ob]\<rparr>
                in case ob of
                     Escaped m \<Rightarrow> s1
                   | _ \<Rightarrow> handleAction q (s1\<lparr>pendingActionQueue := rest\<rparr>))" for ob
      using timer_callback_eq [OF i t, of ob] q by (cases ob) (simp_all add: Let_def)
    have d1: "sent (script_step ?s (TimerFired Snapshot)) = sent ?s @ [Observed, Started q]"
      unfolding e using f by (simp add: handleAction_def)
    have d2: "sent (script_step ?s (TimerFired Failure)) = sent ?s @ [ObserveFailed, Started q]"
      unfolding e using f by (simp add: handleAction_def)
    have d3: "sent (script_step ?s (TimerFired (Escaped m))) = sent ?s @ [ObserveRaised]
                \<and> pendingActionQueue (script_step ?s (TimerFired (Escaped m))) = q # rest
                \<and> in_flight (script_step ?s (TimerFired (Escaped m))) = []" for m
      unfolding e using f q by simp
    have d4: "in_flight (script_step ?s (TimerFired ob)) = [q]
              \<and> pendingActionQueue (script_step ?s (TimerFired ob)) = rest"
      if "\<forall>m. ob \<noteq> Escaped m" for ob
      unfolding e using f that by (cases ob) (simp_all add: handleAction_def)
    from d1 d2 d3 d4 show ?thesis by blast
  qed
  from a b c d show ?thesis by blast
qed

lemma script_run_snoc: "script_run (evs @ [ev]) = script_step (script_run evs) ev"
  by (simp add: script_run_def)

lemmas script_defs =
  script_run_def content_initial_def handleAction_def after_result_def after_exception_def
  timer_callback_def collectAndSendDOM_def

theorem single_flight_witness:
  "pendingActionQueue (script_run [Init, Incoming click_action, Incoming wait_action]) = [wait_action]
   \<and> in_flight (script_run [Init, Incoming click_action, Incoming wait_action]) = [click_action]
   \<and> sent (script_run [Init, Incoming click_action, Incoming wait_action, Settled failed_result,
                        TimerFired Snapshot])
       = [Started click_action, Queued wait_action, ResultSent False, Observed, Started wait_action]
   \<and> in_flight (script_run [Init, Incoming click_action, Incoming wait_action,
                             Settled failed_result, TimerFired Snapshot]) = [wait_action]
   \<and> sent (script_run [Init, Incoming click_action, Incoming wait_action, Settled failed_result,
                        TimerFired (Escaped ''Extension context invalidated.'')])
       = [Started click_action, Queued wait_action, ResultSent False, ObserveRaised]
   \<and> one_at_a_time [Started click_action, Queued wait_action, ResultSent False, Observed,
                     Started wait_action]"
proof -
  let ?e1 = "[Init, Incoming click_action]"
  let ?e2 = "[Init, Incoming click_action, Incoming wait_action, Settled failed_result]"
  have f1: "in_flight (script_run ?e1) = [click_action]" "pendingActionQueue (script_run ?e1) = []"
    by (simp_all add: script_defs)
  have f2: "pendingActionQueue (script_run ?e2) = [wait_action]" "timers (script_run ?e2) > 0"
    "sent (script_run ?e2) = [Started click_action, Queued wait_action, ResultSent False]"
    by (simp_all add: script_defs failed_result_def plain_result_def)
  have r1: "script_run [Init, Incoming click_action, Incoming wait_action]
              = script_step (script_run ?e1) (Incoming wait_action)"
    using script_run_snoc [of ?e1 "Incoming wait_action"] by simp
  have r2: "script_run [Init, Incoming click_action, Incoming wait_action, Settled failed_result,
                        TimerFired ob] = script_step (script_run ?e2) (TimerFired ob)" for ob
    using script_run_snoc [of ?e2 "TimerFired ob"] by simp
  from single_flight [of ?e1 wait_action] f1
  have a: "in_flight (script_step (script_run ?e1) (Incoming wait_action)) = [click_action]"
    "pendingActionQueue (script_step (script_run ?e1) (Incoming wait_action)) = [wait_action]"
    by simp_all
  from single_flight [of ?e2 wait_action] f2
  have b: "sent (script_step (script_run ?e2) (TimerFired Snapshot))
             = [Started click_action, Queued wait_action, ResultSent False, Observed, Started wait_action]"
    "in_flight (script_step (script_run ?e2) (TimerFired Snapshot)) = [wait_action]"
    "sent (script_step (script_run ?e2) (TimerFired (Escaped ''Extension context invalidated.'')))
             = [Started click_action, Queued wait_action, ResultSent False, ObserveRaised]"
    by simp_all
  from single_flight [of "?e2 @ [TimerFired Snapshot]" wait_action]
  have c: "one_at_a_time (sent (script_step (script_run ?e2) (TimerFired Snapshot)))"
    unfolding script_run_snoc by blast
  from a b c show ?thesis unfolding r1 r2 by simp
qed

text \<open>
  Claim C8 as stated asks that a queued action runs only after a fresh snapshot has been
  collected and sent.  When building the snapshot raises, \<^verbatim>\<open>collectAndSendDOM\<close> catches the
  exception and sends an \<^verbatim>\<open>error\<close> message instead, and the timer callback goes on to the
  queue: the queued action is started although no snapshot has been sent since the previous
  action completed.
\<close>

theorem queued_action_started_unobserved:
  "sent (script_run [Init, Incoming click_action, Incoming wait_action, Settled failed_result,
                     TimerFired Failure])
     = [Started click_action, Queued wait_action, ResultSent False, ObserveFailed,
        Started wait_action]
   \<and> in_flight (script_run [Init, Incoming click_action, Incoming wait_action,
                             Settled failed_result, TimerFired Failure]) = [wait_action]
   \<and> Observed \<notin> set (sent (script_run [Init, Incoming click_action, Incoming wait_action,
                                        Settled failed_result, TimerFired Failure]))
   \<and> \<not> observed_before_start (sent (script_run [Init, Incoming click_action, Incoming wait_action,
                                        Settled failed_result, TimerFired Failure]))"
  by (simp add: script_defs failed_result_def plain_result_def observed_before_start_def)

section \<open>Decision parsing (server/agent/graph.js, agent service)\<close>

subsection \<open>Values and the engine\<close>

text \<open>
  A parsed decision is a JavaScript value.  \<^verbatim>\<open>JSON.parse\<close> belongs to the engine and is a
  parameter of the model: it answers a value, or raises a \<^verbatim>\<open>SyntaxError\<close> with a message
  (\<open>Inl\<close>).  The engine also fixes the message of the \<^verbatim>\<open>TypeError\<close> raised by reading a
  property of \<^verbatim>\<open>null\<close> or \<^verbatim>\<open>undefined\<close>.  Object properties are kept as a list of pairs in
  insertion order.
\<close>

datatype jsval =
    JUndefined
  | JNull
  | JBool bool
  | JNum real
  | JStr string
  | JArr "jsval list"
  | JObj "(string \<times> jsval) list"

record engine =
  JSON_parse :: "string \<Rightarrow> string + jsval"
  property_of_null_message :: string

text \<open>Reading one of the properties the parsers read (\<^verbatim>\<open>type\<close>, \<^verbatim>\<open>action\<close>,
  \<^verbatim>\<open>current_state\<close>, \<^verbatim>\<open>xpath\<close>, \<^verbatim>\<open>index\<close>): the last binding of an object,
  \<^verbatim>\<open>undefined\<close> on any other value, an exception on \<^verbatim>\<open>null\<close> and \<^verbatim>\<open>undefined\<close>.\<close>

definition obj_prop :: "(string \<times> jsval) list \<Rightarrow> string \<Rightarrow> jsval" where
  "obj_prop kvs k = (case map_of (rev kvs) k of None \<Rightarrow> JUndefined | Some v \<Rightarrow> v)"

fun get_prop :: "engine \<Rightarrow> jsval \<Rightarrow> string \<Rightarrow> jsval outcome" where
  "get_prop eng JUndefined k = Throws (property_of_null_message eng)"
| "get_prop eng JNull k = Throws (property_of_null_message eng)"
| "get_prop eng (JObj kvs) k = Returns (obj_prop kvs k)"
| "get_prop eng v k = Returns JUndefined"

fun js_truthy :: "jsval \<Rightarrow> bool" where
  "js_truthy JUndefined = False"
| "js_truthy JNull = False"
| "js_truthy (JBool b) = b"
| "js_truthy (JNum n) = (n \<noteq> 0)"
| "js_truthy (JStr s) = (s \<noteq> [])"
| "js_truthy (JArr vs) = True"
| "js_truthy (JObj kvs) = True"

text \<open>\<^verbatim>\<open>try { ... } catch (error) { ... }\<close> with the handler reading \<^verbatim>\<open>error.message\<close>.\<close>

definition try_catch :: "'a outcome \<Rightarrow> (string \<Rightarrow> 'a outcome) \<Rightarrow> 'a outcome" where
  "try_catch attempt handler = (case attempt of Returns v \<Rightarrow> Returns v | Throws m \<Rightarrow> handler m)"

subsection \<open>The regular expressions\<close>

definition fence :: string where
  "fence = [CHR 0x60, CHR 0x60, CHR 0x60]"

text \<open>The text before and after the first occurrence of a non-empty pattern.\<close>

fun split_on :: "string \<Rightarrow> string \<Rightarrow> (string \<times> string) option" where
  "split_on pat [] = None"
| "split_on pat (c # cs) =
     (if take (length pat) (c # cs) = pat then Some ([], drop (length pat) (c # cs))
      else map_option (\<lambda>(b, a). (c # b, a)) (split_on pat cs))"

text \<open>An opener, the shortest text up to a closer, the closer: the whole match and the group.
  With a lazy group the leftmost match starts at the first opener and ends at the first closer
  after it.\<close>

definition match_between :: "string \<Rightarrow> string \<Rightarrow> string \<Rightarrow> (string \<times> string) option" where
  "match_between opener closer s =
     (case split_on opener s of
        None \<Rightarrow> None
      | Some (_, r) \<Rightarrow>
          (case split_on closer r of
             None \<Rightarrow> None
           | Some (g, _) \<Rightarrow> Some (opener @ g @ closer, g)))"

text \<open>The three patterns of \<^verbatim>\<open>parseAction\<close>, tried in order; the third has no group.  The
  result is \<^verbatim>\<open>jsonMatch[1] || jsonMatch[0]\<close>: the group unless it is missing or empty.\<close>

definition jsonMatch :: "string \<Rightarrow> string option" where
  "jsonMatch s =
     (case match_between (fence @ ''json'' @ [CHR 0x0A]) (CHR 0x0A # fence) s of
        Some (w, g) \<Rightarrow> Some (if g \<noteq> [] then g else w)
      | None \<Rightarrow>
          (case match_between fence fence s of
             Some (w, g) \<Rightarrow> Some (if g \<noteq> [] then g else w)
           | None \<Rightarrow>
               (case match_between ''{'' ''}'' s of
                  Some (w, g) \<Rightarrow> Some w
                | None \<Rightarrow> None)))"

definition is_sep :: "char \<Rightarrow> bool" where
  "is_sep c \<longleftrightarrow> c = CHR '':'' \<or> is_space c"

definition is_digit :: "char \<Rightarrow> bool" where
  "is_digit c \<longleftrightarrow> c \<in> set ''0123456789''"

text \<open>\<^verbatim>\<open>/kw[:\s]+ tail/i\<close>: the leftmost position where the keyword (in any case) is followed
  by at least one separator and then by what \<open>tail\<close> accepts; the answer is the group.\<close>

fun match_keyword :: "string \<Rightarrow> (string \<Rightarrow> string option) \<Rightarrow> string \<Rightarrow> string option" where
  "match_keyword kw tail [] = None"
| "match_keyword kw tail (c # cs) =
     (let after = drop (length kw) (c # cs)
      in if toLowerCase (take (length kw) (c # cs)) = kw \<and> takeWhile is_sep after \<noteq> []
            \<and> tail (dropWhile is_sep after) \<noteq> None
         then tail (dropWhile is_sep after)
         else match_keyword kw tail cs)"

definition digits_tail :: "string \<Rightarrow> string option" where
  "digits_tail r = (if takeWhile is_digit r = [] then None else Some (takeWhile is_digit r))"

definition quoted_tail :: "char \<Rightarrow> string \<Rightarrow> string option" where
  "quoted_tail q r =
     (case r of
        [] \<Rightarrow> None
      | c # r' \<Rightarrow>
          (if c = q \<and> dropWhile (\<lambda>x. x \<noteq> q) r' \<noteq> [] then Some (takeWhile (\<lambda>x. x \<noteq> q) r')
           else None))"

definition line_tail :: "string \<Rightarrow> string option" where
  "line_tail r = Some (takeWhile (\<lambda>x. x \<noteq> CHR 0x0A \<and> x \<noteq> CHR '','') r)"

text \<open>\<^verbatim>\<open>parseInt\<close> on a run of decimal digits (exact, where a double rounds a long run).\<close>

definition digit_value :: "char \<Rightarrow> nat" where
  "digit_value c = (case map_of (zip ''0123456789'' [0, 1, 2, 3, 4, 5, 6, 7, 8, 9]) c of
                      Some d \<Rightarrow> d | None \<Rightarrow> 0)"

definition parseInt :: "string \<Rightarrow> nat" where
  "parseInt ds = foldl (\<lambda>n c. 10 * n + digit_value c) 0 ds"

subsection \<open>AgentGraph.parseAction\<close>

definition checked_action :: "engine \<Rightarrow> string \<Rightarrow> jsval outcome" where
  "checked_action eng src =
     (case JSON_parse eng src of
        Inl m \<Rightarrow> Throws m
      | Inr v \<Rightarrow>
          (case get_prop eng v ''type'' of
             Throws m \<Rightarrow> Throws m
           | Returns t \<Rightarrow> if \<not> js_truthy t then Throws ''Action missing type'' else Returns v))"

text \<open>The inner \<^verbatim>\<open>try\<close>: the whole response as JSON; any failure is swallowed.\<close>

definition whole_response :: "engine \<Rightarrow> string \<Rightarrow> jsval option" where
  "whole_response eng s =
     (case JSON_parse eng s of
        Inl _ \<Rightarrow> None
      | Inr v \<Rightarrow>
          (case get_prop eng v ''type'' of
             Throws _ \<Rightarrow> None
           | Returns t \<Rightarrow> if js_truthy t then Some v else None))"

definition index_or_zero :: "string \<Rightarrow> jsval" where
  "index_or_zero s =
     (case match_keyword ''index'' digits_tail s of
        Some ds \<Rightarrow> JNum (real (parseInt ds)) | None \<Rightarrow> JNum 0)"

definition textMatch :: "string \<Rightarrow> string option" where
  "textMatch s =
     (case match_keyword ''text'' (quoted_tail (CHR 0x22)) s of
        Some g \<Rightarrow> Some g
      | None \<Rightarrow>
          (case match_keyword ''text'' (quoted_tail (CHR 0x27)) s of
             Some g \<Rightarrow> Some g
           | None \<Rightarrow> match_keyword ''text'' line_tail s))"

text \<open>The last resort: an action inferred from key words of the text, or the exception
  \<^verbatim>\<open>Could not parse action from LLM response\<close>.\<close>

definition inferred_action :: "string \<Rightarrow> jsval outcome" where
  "inferred_action s =
     (if str_includes s ''click'' \<or> str_includes s ''select'' then
        Returns (JObj [(''type'', JStr ''click''), (''index'', index_or_zero s)])
      else if str_includes s ''type'' \<or> str_includes s ''input'' then
        Returns (JObj [(''type'', JStr ''input''), (''index'', index_or_zero s),
                       (''text'', JStr (case textMatch s of Some g \<Rightarrow> trim g | None \<Rightarrow> []))])
      else if str_includes s ''scroll'' then
        Returns (JObj [(''type'', JStr ''scroll''),
                       (''direction'', JStr (if str_includes s ''down'' then ''down'' else ''up'')),
                       (''amount'', (case match_keyword ''amount'' digits_tail s of
                                       Some ds \<Rightarrow> JNum (real (parseInt ds)) | None \<Rightarrow> JNum 500))])
      else if str_includes s ''done'' \<or> str_includes s ''complete'' then
        Returns (JObj [(''type'', JStr ''done''),
                       (''success'', JBool (str_includes s ''success''
                                            \<and> \<not> str_includes s ''not success''))])
      else Throws ''Could not parse action from LLM response'')"

definition parseAction_try :: "engine \<Rightarrow> string \<Rightarrow> jsval outcome" where
  "parseAction_try eng s =
     (case jsonMatch s of
        Some src \<Rightarrow> checked_action eng src
      | None \<Rightarrow>
          (case whole_response eng s of
             Some v \<Rightarrow> Returns v
           | None \<Rightarrow> inferred_action s))"

definition failed_done :: "string \<Rightarrow> jsval" where
  "failed_done m =
     JObj [(''type'', JStr ''done''), (''success'', JBool False),
           (''error'', JStr (''Failed to determine next action: '' @ m))]"

definition parseAction :: "engine \<Rightarrow> string \<Rightarrow> jsval outcome" where
  "parseAction eng s = try_catch (parseAction_try eng s) (\<lambda>m. Returns (failed_done m))"

subsection \<open>AgentService.parseActionFromLLM\<close>

text \<open>\<^verbatim>\<open>/```\n?([\s\S]*?)\n?```/\<close>: after the opener and one optional newline, the group runs
  to the first closer, without the newline that may stand before it.\<close>

definition code_block :: "string \<Rightarrow> string option" where
  "code_block s =
     (case split_on fence s of
        None \<Rightarrow> None
      | Some (_, r) \<Rightarrow>
          (let r1 = (case r of c # r' \<Rightarrow> if c = CHR 0x0A then r' else r | [] \<Rightarrow> r)
           in case split_on fence r1 of
                None \<Rightarrow> None
              | Some (g, _) \<Rightarrow>
                  Some (if g \<noteq> [] \<and> last g = CHR 0x0A then butlast g else g)))"

definition actionJson :: "string \<Rightarrow> string" where
  "actionJson response =
     (if str_includes response (fence @ ''json'') then
        (case match_between (fence @ ''json'' @ [CHR 0x0A]) (CHR 0x0A # fence) response of
           Some (w, g) \<Rightarrow> if g \<noteq> [] then g else response
         | None \<Rightarrow> response)
      else if str_includes response fence then
        (case code_block response of
           Some g \<Rightarrow> if g \<noteq> [] then g else response
         | None \<Rightarrow> response)
      else response)"

text \<open>\<^verbatim>\<open>{ type: parsed.action.type, ...parsed.action }\<close>: the own properties of an object, the
  indexed elements of an array or a string, nothing for the other values; a later binding of a
  key replaces the earlier one in place.\<close>

fun set_prop :: "string \<Rightarrow> jsval \<Rightarrow> (string \<times> jsval) list \<Rightarrow> (string \<times> jsval) list" where
  "set_prop k v [] = [(k, v)]"
| "set_prop k v ((k', v') # kvs) = (if k' = k then (k, v) # kvs else (k', v') # set_prop k v kvs)"

definition own_properties :: "jsval \<Rightarrow> (string \<times> jsval) list" where
  "own_properties v =
     (case v of
        JObj kvs \<Rightarrow> kvs
      | JArr vs \<Rightarrow> zip (map show_nat [0..<length vs]) vs
      | JStr s \<Rightarrow> zip (map show_nat [0..<length s]) (map (\<lambda>c. JStr [c]) s)
      | _ \<Rightarrow> [])"

definition spread_into :: "(string \<times> jsval) list \<Rightarrow> jsval \<Rightarrow> (string \<times> jsval) list" where
  "spread_into kvs v = foldl (\<lambda>acc (k, x). set_prop k x acc) kvs (own_properties v)"

definition parseActionFromLLM_try :: "engine \<Rightarrow> string \<Rightarrow> jsval outcome" where
  "parseActionFromLLM_try eng response =
     (case JSON_parse eng (actionJson response) of
        Inl m \<Rightarrow> Throws m
      | Inr parsed \<Rightarrow>
          (case get_prop eng parsed ''action'' of
             Throws m \<Rightarrow> Throws m
           | Returns act \<Rightarrow>
               (if \<not> js_truthy act then
                  Throws ''Invalid response structure: missing action or current_state''
                else case get_prop eng parsed ''current_state'' of
                  Throws m \<Rightarrow> Throws m
                | Returns cs \<Rightarrow>
                    (if \<not> js_truthy cs then
                       Throws ''Invalid response structure: missing action or current_state''
                     else case get_prop eng act ''type'' of
                       Throws m \<Rightarrow> Throws m
                     | Returns t \<Rightarrow>
                         (let actionModel = spread_into [(''type'', t)] act;
                              ty = obj_prop actionModel ''type''
                          in if (ty = JStr ''click_element'' \<or> ty = JStr ''input_text'')
                                \<and> \<not> js_truthy (obj_prop actionModel ''xpath'')
                                \<and> obj_prop actionModel ''index'' = JUndefined
                             then Throws (''Action type ''
                                    @ (case ty of JStr n \<Rightarrow> n | _ \<Rightarrow> [])
                                    @ '' requires '' @ [CHR 0x27] @ ''xpath'' @ [CHR 0x27]
                                    @ '' parameter'')
                             else Returns (JObj actionModel))))))"

definition error_action :: "string \<Rightarrow> jsval" where
  "error_action m =
     JObj [(''type'', JStr ''error''), (''message'', JStr (''Failed to parse response: '' @ m))]"

definition parseActionFromLLM :: "engine \<Rightarrow> string \<Rightarrow> jsval outcome" where
  "parseActionFromLLM eng response =
     try_catch (parseActionFromLLM_try eng response) (\<lambda>m. Returns (error_action m))"

subsection \<open>Vocabulary of the statements\<close>

text \<open>A property of a value that is neither \<^verbatim>\<open>null\<close> nor \<^verbatim>\<open>undefined\<close>; a value that
  carries a truthy \<^verbatim>\<open>type\<close>; an element action (\<^verbatim>\<open>click_element\<close>, \<^verbatim>\<open>input_text\<close>) that
  names its target neither by \<^verbatim>\<open>xpath\<close> nor by \<^verbatim>\<open>index\<close>; what \<^verbatim>\<open>parseAction\<close> answers
  when the response holds no JSON: the action inferred from key words, or the failing \<open>done\<close>
  action.\<close>

definition js_property :: "jsval \<Rightarrow> string \<Rightarrow> jsval" where
  "js_property v k = (case v of JObj kvs \<Rightarrow> obj_prop kvs k | _ \<Rightarrow> JUndefined)"

definition has_type :: "jsval \<Rightarrow> bool" where
  "has_type v \<longleftrightarrow> js_truthy (js_property v ''type'')"

definition missing_locator :: "jsval \<Rightarrow> bool" where
  "missing_locator act \<longleftrightarrow>
     (js_property act ''type'' = JStr ''click_element'' \<or> js_property act ''type'' = JStr ''input_text'')
     \<and> \<not> js_truthy (js_property act ''xpath'') \<and> js_property act ''index'' = JUndefined"

definition keyword_fallback :: "string \<Rightarrow> jsval" where
  "keyword_fallback s = (case inferred_action s of Returns v \<Rightarrow> v | Throws m \<Rightarrow> failed_done m)"

subsection \<open>An example engine\<close>

text \<open>An engine as it answers on text that is not JSON: \<^verbatim>\<open>JSON.parse\<close> raises a
  \<^verbatim>\<open>SyntaxError\<close>.  The examples apply it to the empty string and to plain prose only.\<close>

definition prose_engine :: engine where
  "prose_engine =
     \<lparr>JSON_parse = (\<lambda>s. Inl ''Unexpected token''),
      property_of_null_message = ''Cannot read properties of null''\<rparr>"

text \<open>An engine that knows one JSON text, a decision whose \<^verbatim>\<open>action\<close> is the empty
  object, and answers on it what \<^verbatim>\<open>JSON.parse\<close> answers.\<close>

definition typeless_response :: string where
  "typeless_response =
     ''{'' @ [CHR 0x22] @ ''current_state'' @ [CHR 0x22] @ '':{},''
     @ [CHR 0x22] @ ''action'' @ [CHR 0x22] @ '':{}}''"

definition sample_engine :: engine where
  "sample_engine =
     \<lparr>JSON_parse = (\<lambda>s. if s = typeless_response
                         then Inr (JObj [(''current_state'', JObj []), (''action'', JObj [])])
                         else Inl ''Unexpected token''),
      property_of_null_message = ''Cannot read properties of null''\<rparr>"

subsection \<open>Totality and the failure value\<close>

lemma truthy_type_is_object:
  "get_prop eng v ''type'' = Returns t \<Longrightarrow> js_truthy t \<Longrightarrow>
   \<exists>kvs. v = JObj kvs \<and> js_truthy (obj_prop kvs ''type'')"
  by (cases v) auto

lemma checked_action_object:
  "checked_action eng src = Returns v \<Longrightarrow> \<exists>kvs. v = JObj kvs \<and> js_truthy (obj_prop kvs ''type'')"
  by (auto simp: checked_action_def split: sum.splits outcome.splits if_splits
           dest: truthy_type_is_object)

lemma whole_response_object:
  "whole_response eng s = Some v \<Longrightarrow> \<exists>kvs. v = JObj kvs \<and> js_truthy (obj_prop kvs ''type'')"
  by (auto simp: whole_response_def split: sum.splits outcome.splits if_splits
           dest: truthy_type_is_object)

lemma inferred_action_object:
  "inferred_action s = Returns v \<Longrightarrow> \<exists>kvs. v = JObj kvs \<and> js_truthy (obj_prop kvs ''type'')"
  by (auto simp: inferred_action_def obj_prop_def split: if_splits)

lemma parseAction_try_object:
  "parseAction_try eng s = Returns v \<Longrightarrow> \<exists>kvs. v = JObj kvs \<and> js_truthy (obj_prop kvs ''type'')"
  by (auto simp: parseAction_try_def split: option.splits
           dest: checked_action_object whole_response_object inferred_action_object)

lemma parse_failure_is_error_action:
  "JSON_parse eng (actionJson s) = Inl m \<Longrightarrow> parseActionFromLLM eng s = Returns (error_action m)"
  by (simp add: parseActionFromLLM_def parseActionFromLLM_try_def try_catch_def)

declare show_nat.simps [simp del]

lemma get_prop_member:
  "v \<noteq> JNull \<Longrightarrow> v \<noteq> JUndefined \<Longrightarrow> get_prop eng v k = Returns (js_property v k)"
  by (cases v) (simp_all add: js_property_def)

lemma get_prop_null:
  "v = JNull \<or> v = JUndefined \<Longrightarrow> get_prop eng v k = Throws (property_of_null_message eng)"
  by auto

lemma truthy_not_null: "js_truthy v \<Longrightarrow> v \<noteq> JNull \<and> v \<noteq> JUndefined"
  by (cases v) simp_all

lemma set_prop_keys: "fst ` set (set_prop k v acc) = insert k (fst ` set acc)"
proof (induction acc)
  case Nil
  show ?case by simp
next
  case (Cons p acc)
  obtain k' v' where p: "p = (k', v')" by (cases p)
  show ?case
  proof (cases "k' = k")
    case True
    then show ?thesis unfolding p by simp
  next
    case False
    then show ?thesis unfolding p by (simp add: Cons.IH insert_commute)
  qed
qed

lemma set_prop_distinct: "distinct (map fst acc) \<Longrightarrow> distinct (map fst (set_prop k v acc))"
  by (induction acc) (auto simp: set_prop_keys)

lemma map_of_rev_distinct: "distinct (map fst xs) \<Longrightarrow> map_of (rev xs) = map_of xs"
proof (induction xs)
  case Nil
  show ?case by simp
next
  case (Cons p xs)
  obtain k v where p: "p = (k, v)" by (cases p)
  from Cons.prems have n: "map_of xs k = None" unfolding p by (simp add: map_of_eq_None_iff)
  from Cons have ih: "map_of (rev xs) = map_of xs" by simp
  show ?case unfolding p using n by (auto simp: ih fun_eq_iff map_add_def split: option.splits)
qed

lemma map_of_set_prop: "map_of (set_prop k v acc) = (map_of acc)(k \<mapsto> v)"
  by (induction acc) (auto simp: fun_eq_iff)

lemma spread_step:
  "distinct (map fst acc) \<Longrightarrow>
   distinct (map fst (foldl (\<lambda>acc (k, x). set_prop k x acc) acc ps))
   \<and> map_of (foldl (\<lambda>acc (k, x). set_prop k x acc) acc ps) = map_of acc ++ map_of (rev ps)"
proof (induction ps arbitrary: acc)
  case Nil
  then show ?case by simp
next
  case (Cons p ps)
  obtain k x where p: "p = (k, x)" by (cases p)
  have d: "distinct (map fst (set_prop k x acc))" using Cons.prems by (rule set_prop_distinct)
  from Cons.IH [OF d] show ?case
    unfolding p by (simp add: map_of_set_prop fun_eq_iff map_add_def split: option.splits)
qed

lemma obj_prop_distinct:
  "distinct (map fst kvs) \<Longrightarrow> obj_prop kvs k = (case map_of kvs k of None \<Rightarrow> JUndefined | Some v \<Rightarrow> v)"
  by (simp add: obj_prop_def map_of_rev_distinct)

lemma obj_prop_spread:
  "obj_prop (spread_into [(k0, v0)] act) k =
     (case map_of (rev (own_properties act)) k of
        Some v \<Rightarrow> v
      | None \<Rightarrow> if k = k0 then v0 else JUndefined)"
proof -
  have d: "distinct (map fst [(k0, v0)])" by simp
  from spread_step [OF d, of "own_properties act"] show ?thesis
    unfolding spread_into_def
    by (simp add: obj_prop_distinct map_add_def split: option.splits)
qed


lemma digit_char_not_e: "d < 10 \<Longrightarrow> digit_char d \<noteq> CHR ''e''"
proof
  assume d: "d < 10" and e: "digit_char d = CHR ''e''"
  from e have "of_char (char_of (48 + d) :: char) = (of_char (CHR ''e'') :: nat)"
    by (simp add: digit_char_def)
  with d show False by simp
qed

lemma show_nat_last: "last (show_nat n) = digit_char (n mod 10)"
  by (subst show_nat.simps) simp

lemma show_nat_not_type: "show_nat n \<noteq> ''type''"
proof
  assume "show_nat n = ''type''"
  then have "last (show_nat n) = CHR ''e''" by (simp)
  then show False using digit_char_not_e [of "n mod 10"] by (simp add: show_nat_last)
qed

lemma indexed_keys_not_type: "map_of (rev (zip (map show_nat is) vs)) ''type'' = None"
proof -
  have "''type'' \<notin> set (map show_nat is)"
  proof
    assume "''type'' \<in> set (map show_nat is)"
    then obtain i where "''type'' = show_nat i" unfolding set_map by (rule imageE)
    with show_nat_not_type [of i] show False by (simp)
  qed
  then have "''type'' \<notin> fst ` set (rev (zip (map show_nat is) vs))"
    by (auto dest: set_zip_leftD)
  then show ?thesis by (rule iffD2 [OF map_of_eq_None_iff])
qed

lemma spread_type:
  "obj_prop (spread_into [(''type'', js_property act ''type'')] act) ''type'' = js_property act ''type''"
proof (cases act)
  case (JObj a)
  then show ?thesis
    unfolding obj_prop_spread
    by (simp add: own_properties_def js_property_def obj_prop_def split: option.splits)
next
  case (JArr vs)
  then show ?thesis
    by (simp add: obj_prop_spread own_properties_def js_property_def indexed_keys_not_type)
next
  case (JStr cs)
  then show ?thesis
    by (simp add: obj_prop_spread own_properties_def js_property_def indexed_keys_not_type)
qed (simp_all add: obj_prop_spread own_properties_def js_property_def)

lemma spread_other:
  assumes "js_property act ''type'' \<noteq> JUndefined" and "k \<noteq> ''type''"
  shows "obj_prop (spread_into [(''type'', t)] act) k = js_property act k"
proof -
  from assms(1) obtain a where a: "act = JObj a" by (cases act) (simp_all add: js_property_def)
  show ?thesis
    unfolding a obj_prop_spread using assms(2)
    by (simp add: own_properties_def js_property_def obj_prop_def split: option.splits)
qed

lemma locator_check:
  "((obj_prop (spread_into [(''type'', js_property act ''type'')] act) ''type'' = JStr ''click_element''
     \<or> obj_prop (spread_into [(''type'', js_property act ''type'')] act) ''type'' = JStr ''input_text'')
    \<and> \<not> js_truthy (obj_prop (spread_into [(''type'', js_property act ''type'')] act) ''xpath'')
    \<and> obj_prop (spread_into [(''type'', js_property act ''type'')] act) ''index'' = JUndefined)
   \<longleftrightarrow> missing_locator act"
proof (cases "js_property act ''type'' = JUndefined")
  case True
  show ?thesis unfolding spread_type using True by (simp add: missing_locator_def)
next
  case False
  show ?thesis unfolding spread_type using False by (simp add: spread_other missing_locator_def)
qed

lemma parseActionFromLLM_io:
  "parseActionFromLLM eng s = Returns
     (case JSON_parse eng (actionJson s) of
        Inl m \<Rightarrow> error_action m
      | Inr v \<Rightarrow>
          if v = JNull \<or> v = JUndefined then error_action (property_of_null_message eng)
          else if \<not> js_truthy (js_property v ''action'') \<or> \<not> js_truthy (js_property v ''current_state'')
            then error_action ''Invalid response structure: missing action or current_state''
          else if missing_locator (js_property v ''action'')
            then error_action (''Action type ''
                   @ (case js_property (js_property v ''action'') ''type'' of JStr n \<Rightarrow> n | _ \<Rightarrow> [])
                   @ '' requires '' @ [CHR 0x27] @ ''xpath'' @ [CHR 0x27] @ '' parameter'')
          else JObj (spread_into [(''type'', js_property (js_property v ''action'') ''type'')]
                       (js_property v ''action'')))"
proof (cases "JSON_parse eng (actionJson s)")
  case (Inl m)
  then show ?thesis
    by (simp add: parseActionFromLLM_def parseActionFromLLM_try_def try_catch_def)
next
  case (Inr v)
  show ?thesis
  proof (cases "v = JNull \<or> v = JUndefined")
    case True
    with Inr show ?thesis
      by (auto simp: parseActionFromLLM_def parseActionFromLLM_try_def try_catch_def)
  next
    case False
    then have g: "get_prop eng v k = Returns (js_property v k)" for k
      by (simp add: get_prop_member)
    show ?thesis
    proof (cases "js_truthy (js_property v ''action'') \<and> js_truthy (js_property v ''current_state'')")
      case False
      with Inr \<open>\<not> (v = JNull \<or> v = JUndefined)\<close> show ?thesis
        by (auto simp: parseActionFromLLM_def parseActionFromLLM_try_def try_catch_def g)
    next
      case True
      then have "js_property v ''action'' \<noteq> JNull \<and> js_property v ''action'' \<noteq> JUndefined"
        using truthy_not_null by blast
      then have ga: "get_prop eng (js_property v ''action'') k = Returns (js_property (js_property v ''action'') k)" for k
        by (simp add: get_prop_member)
      from Inr \<open>\<not> (v = JNull \<or> v = JUndefined)\<close> True show ?thesis
        using locator_check [of "js_property v ''action''"]
        by (simp add: parseActionFromLLM_def parseActionFromLLM_try_def try_catch_def g ga Let_def
              spread_type)
    qed
  qed
qed


lemma has_type_object: "has_type v \<longleftrightarrow> (\<exists>kvs. v = JObj kvs \<and> js_truthy (obj_prop kvs ''type''))"
  by (cases v) (simp_all add: has_type_def js_property_def)

lemma parseAction_io:
  "parseAction eng s = Returns
     (case jsonMatch s of
        Some src \<Rightarrow>
          (case JSON_parse eng src of
             Inl m \<Rightarrow> failed_done m
           | Inr v \<Rightarrow>
               if v = JNull \<or> v = JUndefined then failed_done (property_of_null_message eng)
               else if has_type v then v
               else failed_done ''Action missing type'')
      | None \<Rightarrow>
          (case JSON_parse eng s of
             Inl m \<Rightarrow> keyword_fallback s
           | Inr v \<Rightarrow> if has_type v then v else keyword_fallback s))"
proof (cases "jsonMatch s")
  case (Some src)
  show ?thesis
  proof (cases "JSON_parse eng src")
    case (Inl m)
    with Some show ?thesis
      by (simp add: parseAction_def parseAction_try_def checked_action_def try_catch_def)
  next
    case (Inr v)
    show ?thesis
    proof (cases "v = JNull \<or> v = JUndefined")
      case True
      with Some Inr show ?thesis
        by (auto simp: parseAction_def parseAction_try_def checked_action_def try_catch_def)
    next
      case False
      with Some Inr show ?thesis
        by (simp add: parseAction_def parseAction_try_def checked_action_def try_catch_def
              get_prop_member has_type_def)
    qed
  qed
next
  case None
  show ?thesis
  proof (cases "JSON_parse eng s")
    case (Inl m)
    with None show ?thesis
      by (simp add: parseAction_def parseAction_try_def whole_response_def try_catch_def
            keyword_fallback_def split: outcome.splits)
  next
    case (Inr v)
    show ?thesis
    proof (cases "v = JNull \<or> v = JUndefined")
      case True
      with None Inr show ?thesis
        by (auto simp: parseAction_def parseAction_try_def whole_response_def try_catch_def
              keyword_fallback_def has_type_def js_property_def split: outcome.splits)
    next
      case False
      with None Inr show ?thesis
        by (simp add: parseAction_def parseAction_try_def whole_response_def try_catch_def
              keyword_fallback_def get_prop_member has_type_def split: outcome.splits)
    qed
  qed
qed

lemma no_keyword_fallback:
  "\<not> (str_includes s ''click'' \<or> str_includes s ''select'' \<or> str_includes s ''type''
      \<or> str_includes s ''input'' \<or> str_includes s ''scroll'' \<or> str_includes s ''done''
      \<or> str_includes s ''complete'') \<Longrightarrow>
   keyword_fallback s = failed_done ''Could not parse action from LLM response''"
  by (simp add: keyword_fallback_def inferred_action_def)

lemma keyword_fallback_has_type: "has_type (keyword_fallback s)"
  by (auto simp: keyword_fallback_def inferred_action_def failed_done_def has_type_def js_property_def
        obj_prop_def)

lemma error_action_type: "js_property (error_action m) ''type'' = JStr ''error''"
  by (simp add: error_action_def js_property_def obj_prop_def)

text \<open>
  Claim C3, as the code has it.  For every engine and every response text, both parsers return
  an object and raise nothing.

  \<open>parseAction\<close> always returns an object whose \<open>type\<close> is truthy.  When the response holds
  a JSON snippet (a fenced block or a braced text), the result is the parsed snippet if it
  carries a truthy \<open>type\<close>, and otherwise the failing \<open>done\<close> action with the reason (the
  engine's message, or \<^verbatim>\<open>Action missing type\<close>).  Without a snippet, the result is the whole
  response parsed as JSON if that carries a truthy \<open>type\<close>, else the action inferred from key
  words, and, when the response has none of the key words, the failing \<open>done\<close> action
  \<^verbatim>\<open>{type: 'done', success: false, error}\<close>.

  \<open>parseActionFromLLM\<close> does not return a \<open>done\<close> action on failure and does not check the
  \<open>type\<close>.  It returns the synthetic action \<^verbatim>\<open>{type: 'error', message}\<close> when \<^verbatim>\<open>JSON.parse\<close>
  raises, when the parsed value is \<^verbatim>\<open>null\<close>, when \<^verbatim>\<open>action\<close> or \<^verbatim>\<open>current_state\<close> is missing
  or falsy, and when a \<^verbatim>\<open>click_element\<close> or \<^verbatim>\<open>input_text\<close> action has neither \<^verbatim>\<open>xpath\<close> nor
  \<^verbatim>\<open>index\<close>.  In every other case it returns the response's \<^verbatim>\<open>action\<close> with its \<open>type\<close>
  copied as it is, whatever it is: the \<open>type\<close> of the result is \<open>error\<close> or the \<open>type\<close> the
  response gave, which may be missing.
\<close>

theorem decision_parsing_total:
  "(\<exists>kvs. parseAction eng s = Returns (JObj kvs) \<and> js_truthy (obj_prop kvs ''type''))
   \<and> parseAction eng s = Returns
       (case jsonMatch s of
          Some src \<Rightarrow>
            (case JSON_parse eng src of
               Inl m \<Rightarrow> failed_done m
             | Inr v \<Rightarrow>
                 if v = JNull \<or> v = JUndefined then failed_done (property_of_null_message eng)
                 else if has_type v then v
                 else failed_done ''Action missing type'')
        | None \<Rightarrow>
            (case JSON_parse eng s of
               Inl m \<Rightarrow> keyword_fallback s
             | Inr v \<Rightarrow> if has_type v then v else keyword_fallback s))
   \<and> has_type (keyword_fallback s)
   \<and> (\<not> (str_includes s ''click'' \<or> str_includes s ''select'' \<or> str_includes s ''type''
          \<or> str_includes s ''input'' \<or> str_includes s ''scroll'' \<or> str_includes s ''done''
          \<or> str_includes s ''complete'') \<longrightarrow>
        keyword_fallback s = failed_done ''Could not parse action from LLM response'')
   \<and> failed_done m
       = JObj [(''type'', JStr ''done''), (''success'', JBool False),
               (''error'', JStr (''Failed to determine next action: '' @ m))]
   \<and> parseActionFromLLM eng s = Returns
       (case JSON_parse eng (actionJson s) of
          Inl m \<Rightarrow> error_action m
        | Inr v \<Rightarrow>
            if v = JNull \<or> v = JUndefined then error_action (property_of_null_message eng)
            else if \<not> js_truthy (js_property v ''action'') \<or> \<not> js_truthy (js_property v ''current_state'')
              then error_action ''Invalid response structure: missing action or current_state''
            else if missing_locator (js_property v ''action'')
              then error_action (''Action type ''
                     @ (case js_property (js_property v ''action'') ''type'' of JStr n \<Rightarrow> n | _ \<Rightarrow> [])
                     @ '' requires '' @ [CHR 0x27] @ ''xpath'' @ [CHR 0x27] @ '' parameter'')
            else JObj (spread_into [(''type'', js_property (js_property v ''action'') ''type'')]
                         (js_property v ''action'')))
   \<and> error_action m
       = JObj [(''type'', JStr ''error''), (''message'', JStr (''Failed to parse response: '' @ m))]
   \<and> obj_prop (spread_into [(''type'', js_property act ''type'')] act) ''type'' = js_property act ''type''
   \<and> (\<exists>kvs. parseActionFromLLM eng s = Returns (JObj kvs)
          \<and> (obj_prop kvs ''type'' = JStr ''error''
             \<or> (\<exists>v. JSON_parse eng (actionJson s) = Inr v
                    \<and> js_truthy (js_property v ''action'') \<and> js_truthy (js_property v ''current_state'')
                    \<and> \<not> missing_locator (js_property v ''action'')
                    \<and> obj_prop kvs ''type'' = js_property (js_property v ''action'') ''type'')))"
proof -
  have a: "\<exists>kvs. parseAction eng s = Returns (JObj kvs) \<and> js_truthy (obj_prop kvs ''type'')"
  proof (cases "parseAction_try eng s")
    case (Returns v)
    with parseAction_try_object [OF Returns] show ?thesis
      by (auto simp: parseAction_def try_catch_def)
  next
    case (Throws m)
    then show ?thesis
      by (simp add: parseAction_def try_catch_def failed_done_def obj_prop_def)
  qed
  note b = parseAction_io [of eng s]
  note c = keyword_fallback_has_type [of s]
  have d: "\<not> (str_includes s ''click'' \<or> str_includes s ''select'' \<or> str_includes s ''type''
          \<or> str_includes s ''input'' \<or> str_includes s ''scroll'' \<or> str_includes s ''done''
          \<or> str_includes s ''complete'') \<longrightarrow>
        keyword_fallback s = failed_done ''Could not parse action from LLM response''"
    using no_keyword_fallback [of s] by blast
  have e: "failed_done m
       = JObj [(''type'', JStr ''done''), (''success'', JBool False),
               (''error'', JStr (''Failed to determine next action: '' @ m))]"
    by (simp add: failed_done_def)
  note f = parseActionFromLLM_io [of eng s]
  have g: "error_action m
       = JObj [(''type'', JStr ''error''), (''message'', JStr (''Failed to parse response: '' @ m))]"
    by (simp add: error_action_def)
  note h = spread_type [of act]
  have i: "\<exists>kvs. parseActionFromLLM eng s = Returns (JObj kvs)
          \<and> (obj_prop kvs ''type'' = JStr ''error''
             \<or> (\<exists>v. JSON_parse eng (actionJson s) = Inr v
                    \<and> js_truthy (js_property v ''action'') \<and> js_truthy (js_property v ''current_state'')
                    \<and> \<not> missing_locator (js_property v ''action'')
                    \<and> obj_prop kvs ''type'' = js_property (js_property v ''action'') ''type''))"
  proof (cases "JSON_parse eng (actionJson s)")
    case (Inl x)
    then show ?thesis unfolding f by (simp add: error_action_def obj_prop_def)
  next
    case (Inr v)
    show ?thesis
    proof (cases "v \<noteq> JNull \<and> v \<noteq> JUndefined
                  \<and> js_truthy (js_property v ''action'') \<and> js_truthy (js_property v ''current_state'')
                  \<and> \<not> missing_locator (js_property v ''action'')")
      case True
      with Inr show ?thesis unfolding f by (simp add: spread_type)
    next
      case False
      with Inr show ?thesis unfolding f by (auto simp: error_action_def obj_prop_def)
    qed
  qed
  from a b c d e f g h i show ?thesis by blast
qed


lemma prose_no_match: "jsonMatch ''hello'' = None"
  by (simp add: jsonMatch_def match_between_def fence_def)

lemma typeless_actionJson: "actionJson typeless_response = typeless_response"
  by (simp add: actionJson_def typeless_response_def fence_def)

lemma hello_no_keyword:
  "\<not> (str_includes ''hello'' ''click'' \<or> str_includes ''hello'' ''select''
      \<or> str_includes ''hello'' ''type'' \<or> str_includes ''hello'' ''input''
      \<or> str_includes ''hello'' ''scroll'' \<or> str_includes ''hello'' ''done''
      \<or> str_includes ''hello'' ''complete'')"
  by simp

theorem decision_parsing_total_witness:
  "parseAction prose_engine ''hello''
     = Returns (JObj [(''type'', JStr ''done''), (''success'', JBool False),
                      (''error'', JStr ''Failed to determine next action: Could not parse action from LLM response'')])
   \<and> parseActionFromLLM prose_engine []
     = Returns (JObj [(''type'', JStr ''error''),
                      (''message'', JStr ''Failed to parse response: Unexpected token'')])
   \<and> parseActionFromLLM sample_engine typeless_response = Returns (JObj [(''type'', JUndefined)])
   \<and> \<not> has_type (JObj [(''type'', JUndefined)])"
proof -
  note w1 = decision_parsing_total [where eng = prose_engine and s = "''hello''"
              and m = "''Could not parse action from LLM response''"]
  note w2 = decision_parsing_total [where eng = prose_engine and s = "[]"
              and m = "''Unexpected token''"]
  note w3 = decision_parsing_total [where eng = sample_engine and s = typeless_response]
  from w1 hello_no_keyword
  have k: "keyword_fallback ''hello''
             = JObj [(''type'', JStr ''done''), (''success'', JBool False),
                     (''error'', JStr ''Failed to determine next action: Could not parse action from LLM response'')]"
    by simp
  from w1 have "parseAction prose_engine ''hello'' = Returns (keyword_fallback ''hello'')"
    by (simp add: prose_no_match prose_engine_def)
  then have a: "parseAction prose_engine ''hello''
     = Returns (JObj [(''type'', JStr ''done''), (''success'', JBool False),
                      (''error'', JStr ''Failed to determine next action: Could not parse action from LLM response'')])"
    unfolding k .
  have aj: "actionJson [] = []" by (simp add: actionJson_def fence_def)
  from w2 have b: "parseActionFromLLM prose_engine []
     = Returns (JObj [(''type'', JStr ''error''),
                      (''message'', JStr ''Failed to parse response: Unexpected token'')])"
    by (simp add: aj prose_engine_def)
  from w3 have c: "parseActionFromLLM sample_engine typeless_response
                     = Returns (JObj [(''type'', JUndefined)])"
    by (simp add: typeless_actionJson sample_engine_def js_property_def obj_prop_def
          missing_locator_def spread_into_def own_properties_def)
  have d: "\<not> has_type (JObj [(''type'', JUndefined)])"
    by (simp add: has_type_def js_property_def obj_prop_def)
  from a b c d show ?thesis by blast
qed

text \<open>
  Claim C3 as stated fails for \<open>parseActionFromLLM\<close>: on the empty response \<^verbatim>\<open>JSON.parse\<close>
  raises, and the parser returns an action of type \<open>error\<close>, which is not the failing \<open>done\<close>
  action.
\<close>

theorem unparsable_gives_error_action:
  "parseActionFromLLM prose_engine []
     = Returns (JObj [(''type'', JStr ''error''),
                      (''message'', JStr ''Failed to parse response: Unexpected token'')])
   \<and> obj_prop [(''type'', JStr ''error''),
                (''message'', JStr ''Failed to parse response: Unexpected token'')] ''type''
       \<noteq> JStr ''done''"
  by (simp add: parse_failure_is_error_action prose_engine_def error_action_def obj_prop_def)

text \<open>The executor does not know the type \<open>error\<close>: it answers a failed result that is not a
  completion, so the task goes on.\<close>

lemma error_action_not_terminal:
  assumes "act_type a = Some ''error''"
  shows "\<not> success (fst (executeAction c a pg)) \<and> \<not> isComplete (fst (executeAction c a pg))
         \<and> snd (executeAction c a pg) = pg"
  using assms by (simp add: executeAction_def dispatch_action_def plain_result_def)

end
